theory Spec2Isabelle
  imports Complex_Main "HOL-Library.Word" "HOL-Library.Sublist"
begin

section \<open>Python strings\<close>

text \<open>
  A Python \<open>str\<close> is modelled as a HOL \<open>string\<close>: a list of characters, each a code
  point below 256. On that range \<open>str.lower\<close> maps \<open>A..Z\<close> and the capital letters
  \<open>0xC0..0xDE\<close> (without the multiplication sign \<open>0xD7\<close>) to the letter 32 places
  further on and leaves every other character alone.
\<close>

definition lower_char :: "char \<Rightarrow> char" where
  "lower_char c =
     (let n = (of_char c :: nat)
      in if (65 \<le> n \<and> n \<le> 90) \<or> (192 \<le> n \<and> n \<le> 222 \<and> n \<noteq> 215)
         then char_of (n + 32) else c)"

definition lower :: "string \<Rightarrow> string" where
  "lower s = map lower_char s"

text \<open>
  \<open>s.replace(old, new)\<close>: every occurrence of \<open>old\<close> found scanning from the left,
  without overlaps. With an empty \<open>old\<close> Python puts \<open>new\<close> in front of every
  character and at the end.
\<close>

fun py_replace :: "string \<Rightarrow> string \<Rightarrow> string \<Rightarrow> string" where
  "py_replace [] new s = new @ concat (map (\<lambda>c. c # new) s)"
| "py_replace (a # old) new [] = []"
| "py_replace (a # old) new (c # cs) =
     (if take (Suc (length old)) (c # cs) = a # old
      then new @ py_replace (a # old) new (drop (length old) cs)
      else c # py_replace (a # old) new cs)"

text \<open>\<open>str(n)\<close> for an integer: the decimal digits, with a minus sign when negative.\<close>

definition digit_char :: "int \<Rightarrow> char" where
  "digit_char d = ''0123456789'' ! nat d"

function str_digits :: "int \<Rightarrow> string" where
  "str_digits n =
     (if n < 10 then [digit_char n] else str_digits (n div 10) @ [digit_char (n mod 10)])"
  by pat_completeness auto

termination str_digits
  by (relation "measure nat") auto

declare str_digits.simps [simp del]

definition str_int :: "int \<Rightarrow> string" where
  "str_int i = (if i < 0 then CHR ''-'' # str_digits (- i) else str_digits i)"

section \<open>Errors, the logger, paths\<close>

text \<open>
  Every exception the functions raise is a value: a function that can raise returns
  \<open>py_error + 'a\<close>, with \<open>Inl\<close> the exception. \<open>RuntimeError\<close> carries its message
  argument where the source formats one from its data.
\<close>

datatype py_error =
    UnboundLocalError
  | RuntimeError string
  | TypeError
  | ValueError
  | FileNotFoundError
  | RecursionError

text \<open>
  The module has one piece of shared state, the level of its logger, which
  \<open>logger.setLevel(level=verbosity)\<close> overwrites. \<open>verbosity\<close> ranges over the level
  names the logging module knows; \<open>setLevel\<close> itself rejects any other name.
\<close>

datatype level = NOTSET | DEBUG | INFO | WARNING | ERROR | CRITICAL

text \<open>
  A \<open>pathlib.Path\<close>, kept as the expression that builds it: \<open>Path s\<close> is \<open>Path(s)\<close> and
  \<open>PathDiv p s\<close> is \<open>p / s\<close>. The library's normalisation of the result is not modelled;
  equal expressions denote equal paths.
\<close>

datatype path = Path string | PathDiv path string

section \<open>construct\_filename\<close>

text \<open>
  The time arguments \<open>t1\<close>, \<open>t2\<close> go through \<open>str(...)\<close>, so they may be strings or
  integers as well as \<open>None\<close>. \<open>truthy\<close> is the test of \<open>if t1\<close>.
\<close>

datatype pyarg = ArgNone | ArgStr string | ArgInt int

fun truthy :: "pyarg \<Rightarrow> bool" where
  "truthy ArgNone = False"
| "truthy (ArgStr s) = (s \<noteq> [])"
| "truthy (ArgInt i) = (i \<noteq> 0)"

fun py_str :: "pyarg \<Rightarrow> string" where
  "py_str ArgNone = ''None''"
| "py_str (ArgStr s) = s"
| "py_str (ArgInt i) = str_int i"

text \<open>
  The result is the new logger level together with what the call returns or raises.
  With \<open>fmu \<noteq> 1\<close> the body of the \<open>if\<close> is skipped, \<open>dest\<close> was never assigned, and the
  \<open>return stem, dest\<close> raises \<open>UnboundLocalError\<close>.
\<close>

definition construct_filename ::
  "level \<Rightarrow> string \<Rightarrow> string option \<Rightarrow> string option \<Rightarrow> pyarg \<Rightarrow> pyarg \<Rightarrow>
   string option \<Rightarrow> int \<Rightarrow> string \<Rightarrow> string \<Rightarrow> level \<Rightarrow> level \<times> (py_error + string \<times> path)" where
  "construct_filename logger name pretagname tagname t1 t2 subfolder fmu outroot loc verbosity =
     (let logger = verbosity;
          stem = ''unset'';
          outroot = Path outroot
      in if fmu = 1 then
           (let stem = lower name;
                stem = (case tagname of
                          Some t \<Rightarrow> if t \<noteq> [] then stem @ ''--'' @ lower t else stem
                        | None \<Rightarrow> stem);
                stem = (case pretagname of
                          Some p \<Rightarrow> if p \<noteq> [] then lower p @ ''--'' @ stem else stem
                        | None \<Rightarrow> stem);
                stem = (if truthy t1 \<and> \<not> truthy t2 then stem @ ''--'' @ lower (py_str t1)
                        else if truthy t1 \<and> truthy t2
                        then stem @ ''--'' @ lower (py_str t2) @ ''_'' @ lower (py_str t1)
                        else stem);
                stem = py_replace '' '' ''_'' (py_replace ''.'' ''_'' stem);
                dest = (if loc = ''surface'' then PathDiv outroot ''maps''
                        else if loc = ''grid'' then PathDiv outroot ''grids''
                        else if loc = ''table'' then PathDiv outroot ''tables''
                        else if loc = ''polygons'' then PathDiv outroot ''polygons''
                        else if loc = ''cube'' then PathDiv outroot ''cubes''
                        else PathDiv outroot ''other'');
                dest = (case subfolder of
                          Some f \<Rightarrow> if f \<noteq> [] then PathDiv dest f else dest
                        | None \<Rightarrow> dest)
            in (logger, Inr (stem, dest)))
         else (logger, Inl UnboundLocalError))"

section \<open>The verbosity argument and the state of a call\<close>

text \<open>
  Every function that takes \<open>verbosity\<close> starts with
  \<open>logger.setLevel(level=verbosity)\<close>, and the argument is a string. \<open>setLevel\<close> looks
  the name up in the table of the logging module and raises \<open>ValueError\<close> for a name that
  is not there, before anything else runs. \<open>logging_level\<close> is that table, with its two
  aliases.
\<close>

definition logging_level :: "string \<Rightarrow> level option" where
  "logging_level name =
     (if name = ''CRITICAL'' \<or> name = ''FATAL'' then Some CRITICAL
      else if name = ''ERROR'' then Some ERROR
      else if name = ''WARNING'' \<or> name = ''WARN'' then Some WARNING
      else if name = ''INFO'' then Some INFO
      else if name = ''DEBUG'' then Some DEBUG
      else if name = ''NOTSET'' then Some NOTSET
      else None)"

text \<open>
  The state a call can see and change: the logger's level, the text files written so
  far, and for each file name the exception that opening it for writing raises (no entry
  where it opens; a missing folder gives \<open>FileNotFoundError\<close>).
\<close>

record world =
  logger_level :: level
  written :: "string \<rightharpoonup> string"
  open_error :: "string \<rightharpoonup> py_error"


section \<open>Splitting text\<close>

text \<open>
  \<open>str.isspace\<close> and the line boundaries of \<open>str.splitlines\<close>, on code points below 256.
\<close>

definition is_space :: "char \<Rightarrow> bool" where
  "is_space c = ((of_char c :: nat) \<in> {9, 10, 11, 12, 13, 28, 29, 30, 31, 32, 133, 160})"

definition is_linebreak :: "char \<Rightarrow> bool" where
  "is_linebreak c = ((of_char c :: nat) \<in> {10, 11, 12, 13, 28, 29, 30, 133})"

text \<open>
  \<open>text.splitlines()\<close>: the lines without their line ends; a carriage return followed by
  a line feed is one line end, and a line end at the end of the text opens no further line.
\<close>

fun splitlines :: "string \<Rightarrow> string list" where
  "splitlines [] = []"
| "splitlines (c # cs) =
     (if is_linebreak c then
        [] # splitlines (if c = CHR 0x0D \<and> take 1 cs = [CHR 0x0A] then drop 1 cs else cs)
      else (case splitlines cs of [] \<Rightarrow> [[c]] | l # ls \<Rightarrow> (c # l) # ls))"

text \<open>\<open>line.split()\<close>: the maximal runs of characters that are not whitespace.\<close>

function split_ws :: "string \<Rightarrow> string list" where
  "split_ws [] = []"
| "split_ws (c # cs) =
     (if is_space c then split_ws cs
      else (c # takeWhile (\<lambda>d. \<not> is_space d) cs) # split_ws (dropWhile (\<lambda>d. \<not> is_space d) cs))"
  by pat_completeness auto

termination split_ws
  by (relation "measure length") (auto simp: le_imp_less_Suc length_dropWhile_le)

text \<open>\<open>sep.join(xs)\<close> and \<open>s.split(sep)\<close> for a separator of one character.\<close>

fun join :: "string \<Rightarrow> string list \<Rightarrow> string" where
  "join sep [] = []"
| "join sep [x] = x"
| "join sep (x # y # ys) = x @ sep @ join sep (y # ys)"

fun split_char :: "char \<Rightarrow> string \<Rightarrow> string list" where
  "split_char sep [] = [[]]"
| "split_char sep (c # cs) =
     (if c = sep then [] # split_char sep cs
      else (case split_char sep cs of [] \<Rightarrow> [[c]] | x # xs \<Rightarrow> (c # x) # xs))"

section \<open>The parameters.txt reader\<close>

text \<open>
  A value of the result is an integer, a float or a string. The built-in constructors
  \<open>int(...)\<close> and \<open>float(...)\<close> are parameters of the model: \<open>py_int s\<close> and
  \<open>py_float s\<close> are \<open>None\<close> where the constructor raises \<open>ValueError\<close>, and \<open>'f\<close> is
  the type of floats.
\<close>

datatype 'f pyval = PInt int | PFloat 'f | PStr string

definition check_if_number ::
  "(string \<Rightarrow> int option) \<Rightarrow> (string \<Rightarrow> 'f option) \<Rightarrow> string \<Rightarrow> 'f pyval" where
  "check_if_number py_int py_float val =
     (let res = (case py_int val of
                   Some i \<Rightarrow> Some (PInt i)
                 | None \<Rightarrow> (case py_float val of
                              Some x \<Rightarrow> Some (PFloat x)
                            | None \<Rightarrow> None))
      in case res of Some r \<Rightarrow> r | None \<Rightarrow> PStr val)"

text \<open>
  An \<open>OrderedDict\<close> is a list of pairs in insertion order, with distinct keys.
  \<open>d[k] = v\<close> replaces the value of a key already present, in its place, and appends a
  new key at the end.
\<close>

fun od_set :: "'k \<Rightarrow> 'v \<Rightarrow> ('k \<times> 'v) list \<Rightarrow> ('k \<times> 'v) list" where
  "od_set k v [] = [(k, v)]"
| "od_set k v ((k', v') # d) = (if k' = k then (k, v) # d else (k', v') # od_set k v d)"

text \<open>An entry of the result: a value, or the nested dict of a prefix.\<close>

datatype 'f entry = Scalar "'f pyval" | Nested "(string \<times> 'f pyval) list"

type_synonym 'f params = "(string \<times> 'f entry) list"

text \<open>
  The body of the loop over the joined lines. With three fields, a prefix not yet in
  \<open>param\<close> gets a new nested dict; \<open>param[items[0]][items[1]] = ...\<close> then assigns into
  the nested dict, and raises \<open>TypeError\<close> where \<open>param[items[0]]\<close> is an integer, a
  float or a string.
\<close>

definition add_line ::
  "(string \<Rightarrow> int option) \<Rightarrow> (string \<Rightarrow> 'f option) \<Rightarrow> 'f params \<Rightarrow> string
   \<Rightarrow> py_error + 'f params" where
  "add_line py_int py_float param line =
     (let items = split_char CHR '':'' line
      in if length items = 2 then
           Inr (od_set (items ! 0) (Scalar (check_if_number py_int py_float (items ! 1))) param)
         else if length items = 3 then
           (case map_of param (items ! 0) of
              None \<Rightarrow>
                Inr (od_set (items ! 0)
                       (Nested (od_set (items ! 1) (check_if_number py_int py_float (items ! 2)) []))
                       param)
            | Some (Nested d) \<Rightarrow>
                Inr (od_set (items ! 0)
                       (Nested (od_set (items ! 1) (check_if_number py_int py_float (items ! 2)) d))
                       param)
            | Some (Scalar v) \<Rightarrow> Inl TypeError)
         else Inl (RuntimeError (''Unexpected structure of parameters.txt, line is: '' @ line)))"

fun read_lines ::
  "(string \<Rightarrow> int option) \<Rightarrow> (string \<Rightarrow> 'f option) \<Rightarrow> 'f params \<Rightarrow> string list
   \<Rightarrow> py_error + 'f params" where
  "read_lines py_int py_float param [] = Inr param"
| "read_lines py_int py_float param (line # buffer) =
     (case add_line py_int py_float param line of
        Inl e \<Rightarrow> Inl e
      | Inr param' \<Rightarrow> read_lines py_int py_float param' buffer)"

text \<open>
  \<open>files\<close> gives the text of each file that can be opened for reading; opening any other
  name raises \<open>FileNotFoundError\<close>.
\<close>

definition read_parameters_txt ::
  "(string \<Rightarrow> int option) \<Rightarrow> (string \<Rightarrow> 'f option) \<Rightarrow> (string \<rightharpoonup> string) \<Rightarrow> string
   \<Rightarrow> py_error + 'f params" where
  "read_parameters_txt py_int py_float files pfile =
     (case files pfile of
        None \<Rightarrow> Inl FileNotFoundError
      | Some text \<Rightarrow>
          (let buffer = splitlines text;
               buffer = map (\<lambda>line. join '':'' (split_ws line)) buffer
           in read_lines py_int py_float [] buffer))"

subsection \<open>Instances of the built-in constructors, for evaluation\<close>

text \<open>
  \<open>int_literal\<close> is \<open>int(s)\<close> on the characters modelled here: surrounding whitespace is
  stripped, then an optional sign and decimal digits, where single underscores may stand
  between digits. \<open>decimal_literal\<close> covers the plain decimal literals of \<open>float(s)\<close>, an
  optional sign and digits around at most one point, and gives their value as a rational
  number, without the rounding to a double; it stands for \<open>float\<close> in the evaluated
  examples only.
\<close>

definition is_digit :: "char \<Rightarrow> bool" where
  "is_digit c = (48 \<le> (of_char c :: nat) \<and> (of_char c :: nat) \<le> 57)"

definition digit_val :: "char \<Rightarrow> nat" where
  "digit_val c = of_char c - 48"

definition strip :: "string \<Rightarrow> string" where
  "strip s = rev (dropWhile is_space (rev (dropWhile is_space s)))"

fun int_body :: "nat \<Rightarrow> string \<Rightarrow> nat option" where
  "int_body acc [] = Some acc"
| "int_body acc [c] = (if is_digit c then Some (10 * acc + digit_val c) else None)"
| "int_body acc (c # d # cs) =
     (if is_digit c then int_body (10 * acc + digit_val c) (d # cs)
      else if c = CHR ''_'' \<and> is_digit d then int_body acc (d # cs)
      else None)"

definition int_unsigned :: "string \<Rightarrow> nat option" where
  "int_unsigned s = (case s of [] \<Rightarrow> None | c # cs \<Rightarrow> if is_digit c then int_body 0 s else None)"

definition int_literal :: "string \<Rightarrow> int option" where
  "int_literal s =
     (case strip s of
        [] \<Rightarrow> None
      | c # cs \<Rightarrow>
          if c = CHR ''-'' then map_option (\<lambda>n. - int n) (int_unsigned cs)
          else if c = CHR ''+'' then map_option int (int_unsigned cs)
          else map_option int (int_unsigned (c # cs)))"

definition digits_nat :: "string \<Rightarrow> nat option" where
  "digits_nat s =
     (if list_all is_digit s then Some (foldl (\<lambda>a c. 10 * a + digit_val c) 0 s) else None)"

definition decimal_unsigned :: "string \<Rightarrow> rat option" where
  "decimal_unsigned s =
     (let ip = takeWhile (\<lambda>c. c \<noteq> CHR ''.'') s;
          fp = drop 1 (dropWhile (\<lambda>c. c \<noteq> CHR ''.'') s)
      in if ip = [] \<and> fp = [] then None
         else (case (digits_nat ip, digits_nat fp) of
                 (Some a, Some b) \<Rightarrow> Some (of_nat a + of_nat b / 10 ^ length fp)
               | _ \<Rightarrow> None))"

definition decimal_literal :: "string \<Rightarrow> rat option" where
  "decimal_literal s =
     (case strip s of
        [] \<Rightarrow> None
      | c # cs \<Rightarrow>
          if c = CHR ''-'' then map_option uminus (decimal_unsigned cs)
          else if c = CHR ''+'' then decimal_unsigned cs
          else decimal_unsigned (c # cs))"

text \<open>
  Reading the result by a key token: \<open>param[key] == x\<close> for a key without a colon, and
  \<open>param[PREFIX][NAME] == x\<close> for a key \<open>PREFIX:NAME\<close>.
\<close>

definition has_entry :: "'f params \<Rightarrow> string \<Rightarrow> 'f pyval \<Rightarrow> bool" where
  "has_entry param key x =
     (case split_char CHR '':'' key of
        [k] \<Rightarrow> map_of param k = Some (Scalar x)
      | [p, n] \<Rightarrow> (case map_of param p of Some (Nested d) \<Rightarrow> map_of d n = Some x | _ \<Rightarrow> False)
      | _ \<Rightarrow> False)"

section \<open>drop\_nones\<close>

text \<open>
  The Python values a metadata dict holds: \<open>None\<close>, a dict, a list, a set, a tuple, or any
  other value (an atom: a number, a string, a date). A dict is the list of its items in
  insertion order, with distinct keys; a list, a set and a tuple are given by their
  elements, and the constructor records the container type, which
  \<open>type(val)(...)\<close> keeps.
\<close>

datatype ('k, 'a) pyobj =
    VNone
  | VAtom 'a
  | VDict "('k \<times> ('k, 'a) pyobj) list"
  | VList "('k, 'a) pyobj list"
  | VSet "('k, 'a) pyobj list"
  | VTuple "('k, 'a) pyobj list"

text \<open>
  The loop over \<open>dinput.items()\<close>, with \<open>dd\<close> the dict under construction: a dict value is
  pruned recursively, the elements of a list, set or tuple are pruned where they are
  dicts and left alone otherwise, a \<open>None\<close> value is skipped, and any other value is
  stored as it is.
\<close>

fun drop_nones :: "('k \<times> ('k, 'a) pyobj) list \<Rightarrow> ('k \<times> ('k, 'a) pyobj) list" where
  "drop_nones dinput =
     fold (\<lambda>(key, val) dd.
             case val of
               VDict d \<Rightarrow> od_set key (VDict (drop_nones d)) dd
             | VList xs \<Rightarrow>
                 od_set key
                   (VList (map (\<lambda>vv. case vv of VDict d \<Rightarrow> VDict (drop_nones d) | _ \<Rightarrow> vv) xs)) dd
             | VSet xs \<Rightarrow>
                 od_set key
                   (VSet (map (\<lambda>vv. case vv of VDict d \<Rightarrow> VDict (drop_nones d) | _ \<Rightarrow> vv) xs)) dd
             | VTuple xs \<Rightarrow>
                 od_set key
                   (VTuple (map (\<lambda>vv. case vv of VDict d \<Rightarrow> VDict (drop_nones d) | _ \<Rightarrow> vv) xs)) dd
             | VNone \<Rightarrow> dd
             | VAtom a \<Rightarrow> od_set key val dd)
          dinput []"


declare drop_nones.simps [simp del]

section \<open>Bytes and hash objects\<close>

text \<open>
  A \<open>bytes\<close> value is a list of 8-bit words. The MD5 implementation of \<open>hashlib\<close> is a
  parameter of the model, as a hash object of some type \<open>'h\<close>: \<open>new\<close> is \<open>hashlib.md5()\<close>,
  \<open>update h data\<close> is the object after \<open>h.update(data)\<close>, and \<open>digest h\<close> is
  \<open>h.digest()\<close>; \<open>hashlib.md5(data)\<close> is \<open>update new data\<close>. \<open>h.hexdigest()\<close> writes
  each byte of the digest as two lowercase hexadecimal digits.
\<close>

type_synonym byte = "8 word"

definition hex_digit :: "nat \<Rightarrow> char" where
  "hex_digit d = ''0123456789abcdef'' ! d"

definition hex_byte :: "byte \<Rightarrow> string" where
  "hex_byte b = [hex_digit (unat b div 16), hex_digit (unat b mod 16)]"

definition hexdigest :: "('h \<Rightarrow> byte list) \<Rightarrow> 'h \<Rightarrow> string" where
  "hexdigest digest h = concat (map hex_byte (digest h))"

section \<open>md5sum\<close>

text \<open>
  The loop \<open>for chunk in iter(lambda: fil.read(4096), b"")\<close> over an open file:
  \<open>fil.read(n)\<close> returns the next \<open>n\<close> bytes from position \<open>pos\<close>, fewer at the end of
  the file, and moves the position past them; the loop ends at the first empty chunk.
\<close>

function md5sum_loop ::
  "('h \<Rightarrow> byte list \<Rightarrow> 'h) \<Rightarrow> nat \<Rightarrow> byte list \<Rightarrow> nat \<Rightarrow> 'h \<Rightarrow> 'h" where
  "md5sum_loop update n contents pos hash_md5 =
     (let chunk = take n (drop pos contents)
      in if chunk = [] then hash_md5
         else md5sum_loop update n contents (pos + length chunk) (update hash_md5 chunk))"
  by pat_completeness auto

termination md5sum_loop
  by (relation "measure (\<lambda>(update, n, contents, pos, hash_md5). length contents - pos)") auto

declare md5sum_loop.simps [simp del]

text \<open>\<open>files\<close> gives the bytes of each file that can be opened for reading.\<close>

definition md5sum ::
  "'h \<Rightarrow> ('h \<Rightarrow> byte list \<Rightarrow> 'h) \<Rightarrow> ('h \<Rightarrow> byte list) \<Rightarrow> (string \<rightharpoonup> byte list) \<Rightarrow> string
   \<Rightarrow> py_error + string" where
  "md5sum new update digest files fname =
     (case files fname of
        None \<Rightarrow> Inl FileNotFoundError
      | Some contents \<Rightarrow>
          (let hash_md5 = md5sum_loop update 4096 contents 0 new
           in Inr (hexdigest digest hash_md5)))"

text \<open>
  The reference of the claim: the digest of the whole contents, hashed in one step,
  \<open>hashlib.md5(contents).hexdigest()\<close>.
\<close>

definition md5_reference ::
  "'h \<Rightarrow> ('h \<Rightarrow> byte list \<Rightarrow> 'h) \<Rightarrow> ('h \<Rightarrow> byte list) \<Rightarrow> byte list \<Rightarrow> string" where
  "md5_reference new update digest contents = hexdigest digest (update new contents)"

section \<open>uuid\_from\_string\<close>

text \<open>
  \<open>s.encode("utf-8")\<close> on code points below 256: one byte below 128, two bytes from
  128 on.
\<close>

definition utf8_char :: "char \<Rightarrow> byte list" where
  "utf8_char c =
     (let n = (of_char c :: nat)
      in if n < 128 then [of_nat n] else [of_nat (192 + n div 64), of_nat (128 + n mod 64)])"

definition encode_utf8 :: "string \<Rightarrow> byte list" where
  "encode_utf8 s = concat (map utf8_char s)"

text \<open>
  \<open>uuid.UUID(hex)\<close>: the prefixes \<open>urn:\<close> and \<open>uuid:\<close>, surrounding braces and all
  hyphens are removed; what is left must be 32 characters and is read as a number in
  base 16. Two UUIDs are equal when their numbers are. \<open>int(hex, 16)\<close> is modelled on
  strings of hexadecimal digits; any other string is refused here.
\<close>

datatype uuid = UUID int

definition hex_value :: "char \<Rightarrow> int option" where
  "hex_value c =
     (let n = (of_char c :: int)
      in if 48 \<le> n \<and> n \<le> 57 then Some (n - 48)
         else if 97 \<le> n \<and> n \<le> 102 then Some (n - 87)
         else if 65 \<le> n \<and> n \<le> 70 then Some (n - 55)
         else None)"

fun int_base16 :: "int \<Rightarrow> string \<Rightarrow> int option" where
  "int_base16 acc [] = Some acc"
| "int_base16 acc (c # cs) =
     (case hex_value c of None \<Rightarrow> None | Some d \<Rightarrow> int_base16 (16 * acc + d) cs)"

definition strip_chars :: "string \<Rightarrow> string \<Rightarrow> string" where
  "strip_chars chars s =
     rev (dropWhile (\<lambda>c. c \<in> set chars) (rev (dropWhile (\<lambda>c. c \<in> set chars) s)))"

definition uuid_UUID :: "string \<Rightarrow> py_error + uuid" where
  "uuid_UUID hex =
     (let hex = py_replace ''uuid:'' [] (py_replace ''urn:'' [] hex);
          hex = py_replace ''-'' [] (strip_chars ''{}'' hex)
      in if length hex \<noteq> 32 then Inl ValueError
         else (case int_base16 0 hex of None \<Rightarrow> Inl ValueError | Some i \<Rightarrow> Inr (UUID i)))"

definition uuid_from_string ::
  "'h \<Rightarrow> ('h \<Rightarrow> byte list \<Rightarrow> 'h) \<Rightarrow> ('h \<Rightarrow> byte list) \<Rightarrow> string \<Rightarrow> py_error + uuid" where
  "uuid_from_string new update digest string =
     uuid_UUID (hexdigest digest (update new (encode_utf8 string)))"

section \<open>export\_metadata\_file\<close>

text \<open>
  The two serialisers, \<open>oyaml.safe_dump\<close> and \<open>json.dumps(..., default=str, indent=2)\<close>,
  are parameters; each returns the text or the exception it raises. \<open>too_deep d\<close> says
  that pruning \<open>d\<close> runs out of stack: \<open>drop_nones\<close> calls itself once for every level
  of nesting, and past the interpreter's recursion limit the call raises
  \<open>RecursionError\<close> (in Python a subclass of \<open>RuntimeError\<close>). The text of a file is
  computed before the file is opened, so a step that raises leaves the files as they
  were. A file that opens is written in full.
\<close>

definition export_metadata_file ::
  "(('k \<times> ('k, 'a) pyobj) list \<Rightarrow> py_error + string) \<Rightarrow>
   (('k \<times> ('k, 'a) pyobj) list \<Rightarrow> py_error + string) \<Rightarrow>
   (('k \<times> ('k, 'a) pyobj) list \<Rightarrow> bool) \<Rightarrow>
   world \<Rightarrow> string \<Rightarrow> ('k \<times> ('k, 'a) pyobj) list \<Rightarrow> string \<Rightarrow> string \<Rightarrow>
   world \<times> (py_error + unit)" where
  "export_metadata_file safe_dump json_dumps too_deep w yfile metadata savefmt verbosity =
     (case logging_level verbosity of
        None \<Rightarrow> (w, Inl ValueError)
      | Some lv \<Rightarrow>
          (let w = w\<lparr>logger_level := lv\<rparr>
           in if metadata \<noteq> [] then
                (if too_deep metadata then (w, Inl RecursionError)
                 else
                   (let xdata = drop_nones metadata
                    in if savefmt = ''yaml'' then
                         (case safe_dump xdata of
                            Inl e \<Rightarrow> (w, Inl e)
                          | Inr yamlblock \<Rightarrow>
                              (case open_error w yfile of
                                 Some e \<Rightarrow> (w, Inl e)
                               | None \<Rightarrow>
                                   (w\<lparr>written := (written w)(yfile \<mapsto> yamlblock)\<rparr>, Inr ())))
                       else
                         (let jfile = py_replace ''.yml'' ''.json'' yfile
                          in case json_dumps xdata of
                               Inl e \<Rightarrow> (w, Inl e)
                             | Inr jsonblock \<Rightarrow>
                                 (case open_error w jfile of
                                    Some e \<Rightarrow> (w, Inl e)
                                  | None \<Rightarrow>
                                      (w\<lparr>written := (written w)(jfile \<mapsto> jsonblock)\<rparr>,
                                       Inr ())))))
              else
                (w, Inl (RuntimeError
                           ''Export of metadata was requested, but no metadata are present.''))))"

subsection \<open>Instances of the parameters, for evaluation\<close>

text \<open>
  \<open>keys_text\<close> stands for a serialiser in the evaluated examples: it never raises and
  writes the keys of the dict one after the other. \<open>unlimited\<close> is an interpreter whose
  stack does not run out.
\<close>

definition keys_text :: "(string \<times> (string, 'a) pyobj) list \<Rightarrow> py_error + string" where
  "keys_text d = Inr (concat (map fst d))"

definition unlimited :: "('k \<times> ('k, 'a) pyobj) list \<Rightarrow> bool" where
  "unlimited d = False"

section \<open>Properties of construct\_filename\<close>

lemma py_replace_char:
  "py_replace [a] [b] s = map (\<lambda>c. if c = a then b else c) s"
  by (induction s) auto

lemma sanitize_map:
  "py_replace '' '' ''_'' (py_replace ''.'' ''_'' s) =
     map (\<lambda>c. if c = CHR ''.'' \<or> c = CHR '' '' then CHR ''_'' else c) s"
  by (simp add: py_replace_char)

text \<open>The call of the cube test: name \<open>Volantis\<close>, tagname \<open>what Descr\<close>.\<close>

lemma construct_filename_cube_test:
  "construct_filename WARNING ''Volantis'' None (Some ''what Descr'') ArgNone ArgNone None 1
     ''/tmp'' ''cube'' INFO
   = (INFO, Inr (''volantis--what_descr'', PathDiv (Path ''/tmp'') ''cubes''))"
  by code_simp

text \<open>A call with a pretagname, both times (one of them an integer) and a subfolder.\<close>

lemma construct_filename_times:
  "construct_filename WARNING ''Top.Volantis'' (Some ''Pre'') (Some ''what Descr'')
     (ArgInt 20200101) (ArgStr ''2018-01-01'') (Some ''sub'') 1 ''../../share/results/''
     ''surface'' DEBUG
   = (DEBUG, Inr (''pre--top_volantis--what_descr--2018-01-01_20200101'',
                  PathDiv (PathDiv (Path ''../../share/results/'') ''maps'') ''sub''))"
  by code_simp

text \<open>
  Claim C1. With \<open>fmu = 1\<close> the call returns a pair \<open>(stem, dest)\<close>. The stem is the
  lowercased name, followed by \<open>--\<close> and the lowercased tagname when a tagname is given,
  preceded by the lowercased pretagname and \<open>--\<close> when a pretagname is given, followed by
  \<open>--t1\<close> when only \<open>t1\<close> is given and by \<open>--t2_t1\<close> when both times are given (the times
  as \<open>str(...)\<close> prints them, lowercased), and in the whole of it every dot and every space
  is replaced by an underscore, so that the stem has neither. The destination is the output
  root joined with the folder of the data type (\<open>maps\<close>, \<open>grids\<close>, \<open>tables\<close>, \<open>polygons\<close>,
  \<open>cubes\<close>, or \<open>other\<close> for any other \<open>loc\<close>), joined with the subfolder when one is
  given. An argument is given when the source's test \<open>if tagname:\<close> succeeds: it is neither
  \<open>None\<close> nor empty (nor, for a time, the integer zero).
\<close>

theorem construct_filename_fmu1:
  "\<exists>stem dest.
     snd (construct_filename logger name pretagname tagname t1 t2 subfolder 1 outroot loc verbosity)
       = Inr (stem, dest)
   \<and> stem = map (\<lambda>c. if c = CHR ''.'' \<or> c = CHR '' '' then CHR ''_'' else c)
       ((case pretagname of None \<Rightarrow> [] | Some p \<Rightarrow> if p = [] then [] else lower p @ ''--'')
        @ lower name
        @ (case tagname of None \<Rightarrow> [] | Some t \<Rightarrow> if t = [] then [] else ''--'' @ lower t)
        @ (if truthy t1 \<and> truthy t2 then ''--'' @ lower (py_str t2) @ ''_'' @ lower (py_str t1)
           else if truthy t1 then ''--'' @ lower (py_str t1)
           else []))
   \<and> CHR ''.'' \<notin> set stem \<and> CHR '' '' \<notin> set stem
   \<and> dest =
       (let folder = (if loc = ''surface'' then ''maps'' else if loc = ''grid'' then ''grids''
                      else if loc = ''table'' then ''tables''
                      else if loc = ''polygons'' then ''polygons''
                      else if loc = ''cube'' then ''cubes'' else ''other'');
            base = PathDiv (Path outroot) folder
        in case subfolder of None \<Rightarrow> base | Some f \<Rightarrow> if f = [] then base else PathDiv base f)"
proof -
  define san where "san = (\<lambda>c. if c = CHR ''.'' \<or> c = CHR '' '' then CHR ''_'' else c)"
  define pre where
    "pre = (case pretagname of None \<Rightarrow> [] | Some p \<Rightarrow> if p = [] then [] else lower p @ ''--'')"
  define tag where
    "tag = (case tagname of None \<Rightarrow> [] | Some t \<Rightarrow> if t = [] then [] else ''--'' @ lower t)"
  define tim where
    "tim = (if truthy t1 \<and> truthy t2 then ''--'' @ lower (py_str t2) @ ''_'' @ lower (py_str t1)
           else if truthy t1 then ''--'' @ lower (py_str t1)
           else [])"
  define folder where
    "folder = (if loc = ''surface'' then ''maps'' else if loc = ''grid'' then ''grids''
                      else if loc = ''table'' then ''tables''
                      else if loc = ''polygons'' then ''polygons''
                      else if loc = ''cube'' then ''cubes'' else ''other'')"
  define dest where
    "dest = (case subfolder of None \<Rightarrow> PathDiv (Path outroot) folder
             | Some f \<Rightarrow> if f = [] then PathDiv (Path outroot) folder
                         else PathDiv (PathDiv (Path outroot) folder) f)"
  have s1: "(case tagname of Some t \<Rightarrow> if t \<noteq> [] then lower name @ ''--'' @ lower t else lower name
             | None \<Rightarrow> lower name) = lower name @ tag"
    by (simp add: tag_def split: option.split)
  have s2: "(case pretagname of Some p \<Rightarrow> if p \<noteq> [] then lower p @ ''--'' @ x else x
             | None \<Rightarrow> x) = pre @ x" for x
    by (simp add: pre_def split: option.split)
  have s3: "(if truthy t1 \<and> \<not> truthy t2 then x @ ''--'' @ lower (py_str t1)
             else if truthy t1 \<and> truthy t2
             then x @ ''--'' @ lower (py_str t2) @ ''_'' @ lower (py_str t1)
             else x) = x @ tim" for x
    by (simp add: tim_def)
  have d1: "(if loc = ''surface'' then PathDiv p ''maps''
                        else if loc = ''grid'' then PathDiv p ''grids''
                        else if loc = ''table'' then PathDiv p ''tables''
                        else if loc = ''polygons'' then PathDiv p ''polygons''
                        else if loc = ''cube'' then PathDiv p ''cubes''
                        else PathDiv p ''other'') = PathDiv p folder" for p
    unfolding folder_def by (simp only: if_distrib [of "PathDiv p"])
  have d2: "(case subfolder of Some f \<Rightarrow> if f \<noteq> [] then PathDiv x f else x | None \<Rightarrow> x)
     = (case subfolder of None \<Rightarrow> x | Some f \<Rightarrow> if f = [] then x else PathDiv x f)" for x
    by (simp split: option.split)
  have r: "snd (construct_filename logger name pretagname tagname t1 t2 subfolder 1 outroot loc
                  verbosity)
       = Inr (map san (pre @ lower name @ tag @ tim), dest)"
    unfolding construct_filename_def Let_def s1 s2 s3 d1 d2 sanitize_map dest_def san_def
    by (simp split: option.split)
  have n: "CHR ''.'' \<notin> set (map san xs) \<and> CHR '' '' \<notin> set (map san xs)" for xs
    by (auto simp: san_def)
  show ?thesis
    using r n [of "pre @ lower name @ tag @ tim"]
    unfolding san_def pre_def tag_def tim_def dest_def folder_def Let_def
    by blast
qed










section \<open>Properties of the parameters.txt reader\<close>

lemma split_char_not_Nil: "split_char sep s \<noteq> []"
  by (induction s) (auto split: list.splits)

lemma split_char_no_sep: "sep \<notin> set s \<Longrightarrow> split_char sep s = [s]"
  by (induction s) auto

lemma split_char_length_one: "length (split_char sep s) = 1 \<Longrightarrow> split_char sep s = [s]"
  by (induction s) (auto split: if_splits list.splits simp: split_char_not_Nil)

lemma split_char_append:
  "split_char sep (a @ sep # b) = split_char sep a @ split_char sep b"
  by (induction a) (auto split: list.splits simp: split_char_not_Nil)

lemma split_char_join:
  "split_char sep (join [sep] (t # ts)) = concat (map (split_char sep) (t # ts))"
  by (induction ts arbitrary: t) (auto simp: split_char_append)

lemma split_ws_all_space: "\<forall>c\<in>set s. is_space c \<Longrightarrow> split_ws s = []"
  by (induction s) auto

lemma add_line_RuntimeError:
  "(\<exists>msg. add_line py_int py_float param line = Inl (RuntimeError msg)) \<longleftrightarrow>
     (length (split_char CHR '':'' line) < 2 \<or> 3 < length (split_char CHR '':'' line))"
  unfolding add_line_def Let_def
  by (auto split: option.splits entry.splits)

lemma read_lines_RuntimeError:
  "(\<exists>msg. read_lines py_int py_float param buffer = Inl (RuntimeError msg)) \<longleftrightarrow>
     (\<exists>pre line post param'. buffer = pre @ line # post \<and>
        read_lines py_int py_float param pre = Inr param' \<and>
        (length (split_char CHR '':'' line) < 2 \<or> 3 < length (split_char CHR '':'' line)))"
proof (induction buffer arbitrary: param)
  case Nil
  then show ?case by simp
next
  case (Cons l ls)
  let ?bad = "\<lambda>line. length (split_char CHR '':'' line) < 2 \<or> 3 < length (split_char CHR '':'' line)"
  show ?case
  proof (cases "add_line py_int py_float param l")
    case (Inl e)
    have "(\<exists>msg. e = RuntimeError msg) \<longleftrightarrow> ?bad l"
      using add_line_RuntimeError [of py_int py_float param l] Inl by simp
    moreover have "(\<exists>pre line post param'. l # ls = pre @ line # post \<and>
        read_lines py_int py_float param pre = Inr param' \<and> ?bad line) \<longleftrightarrow> ?bad l"
    proof
      assume "\<exists>pre line post param'. l # ls = pre @ line # post \<and>
        read_lines py_int py_float param pre = Inr param' \<and> ?bad line"
      then obtain pre line post param' where
        d: "l # ls = pre @ line # post" and
        r: "read_lines py_int py_float param pre = Inr param'" and b: "?bad line"
        by blast
      show "?bad l"
      proof (cases pre)
        case Nil
        with d b show ?thesis by simp
      next
        case (Cons x xs)
        with d have "x = l" by simp
        with Cons r Inl show ?thesis by simp
      qed
    next
      assume "?bad l"
      then have "l # ls = [] @ l # ls \<and> read_lines py_int py_float param [] = Inr param \<and> ?bad l"
        by simp
      then show "\<exists>pre line post param'. l # ls = pre @ line # post \<and>
        read_lines py_int py_float param pre = Inr param' \<and> ?bad line"
        by blast
    qed
    ultimately show ?thesis using Inl by simp
  next
    case (Inr p)
    have nb: "\<not> ?bad l"
      using add_line_RuntimeError [of py_int py_float param l] Inr by auto
    have "(\<exists>pre line post param'. l # ls = pre @ line # post \<and>
        read_lines py_int py_float param pre = Inr param' \<and> ?bad line) \<longleftrightarrow>
      (\<exists>pre line post param'. ls = pre @ line # post \<and>
        read_lines py_int py_float p pre = Inr param' \<and> ?bad line)"
    proof
      assume "\<exists>pre line post param'. l # ls = pre @ line # post \<and>
        read_lines py_int py_float param pre = Inr param' \<and> ?bad line"
      then obtain pre line post param' where
        d: "l # ls = pre @ line # post" and
        r: "read_lines py_int py_float param pre = Inr param'" and b: "?bad line"
        by blast
      show "\<exists>pre line post param'. ls = pre @ line # post \<and>
        read_lines py_int py_float p pre = Inr param' \<and> ?bad line"
      proof (cases pre)
        case Nil
        with d b nb show ?thesis by simp
      next
        case (Cons x xs)
        with d have "x = l" "ls = xs @ line # post" by simp_all
        moreover from Cons r Inr \<open>x = l\<close> have "read_lines py_int py_float p xs = Inr param'"
          by simp
        ultimately show ?thesis using b by blast
      qed
    next
      assume "\<exists>pre line post param'. ls = pre @ line # post \<and>
        read_lines py_int py_float p pre = Inr param' \<and> ?bad line"
      then obtain pre line post param' where
        d: "ls = pre @ line # post" and
        r: "read_lines py_int py_float p pre = Inr param'" and b: "?bad line"
        by blast
      have "l # ls = (l # pre) @ line # post" using d by simp
      moreover have "read_lines py_int py_float param (l # pre) = Inr param'"
        using r Inr by simp
      ultimately show "\<exists>pre line post param'. l # ls = pre @ line # post \<and>
        read_lines py_int py_float param pre = Inr param' \<and> ?bad line"
        using b by blast
    qed
    then show ?thesis using Cons.IH [of p] Inr by simp
  qed
qed

lemma map_of_od_set: "map_of (od_set k v d) = (map_of d)(k \<mapsto> v)"
  by (induction d) (auto simp: fun_eq_iff)

lemma split_ws_append_space:
  "is_space g \<Longrightarrow> split_ws (a @ g # b) = split_ws a @ split_ws b"
proof (induction a rule: split_ws.induct)
  case 1
  then show ?case by simp
next
  case (2 c cs)
  show ?case
  proof (cases "is_space c")
    case True
    with 2 show ?thesis by simp
  next
    case False
    let ?P = "\<lambda>d. \<not> is_space d"
    show ?thesis
    proof (cases "\<forall>x\<in>set cs. ?P x")
      case True
      then have t: "takeWhile ?P (cs @ g # b) = cs" "dropWhile ?P (cs @ g # b) = g # b"
        using \<open>is_space g\<close> by (simp_all add: takeWhile_append2 dropWhile_append2)
      from True have u: "takeWhile ?P cs = cs" "dropWhile ?P cs = []"
        by (simp_all add: takeWhile_eq_all_conv)
      have "split_ws ((c # cs) @ g # b) = (c # cs) # split_ws (g # b)"
        using \<open>\<not> is_space c\<close> by (simp add: t)
      moreover have "split_ws (c # cs) = [c # cs]"
        using \<open>\<not> is_space c\<close> by (simp add: u)
      ultimately show ?thesis using \<open>is_space g\<close> by simp
    next
      case False
      then obtain x where x: "x \<in> set cs" "\<not> ?P x" by blast
      then have "takeWhile ?P (cs @ g # b) = takeWhile ?P cs"
        "dropWhile ?P (cs @ g # b) = dropWhile ?P cs @ g # b"
        by (simp_all add: takeWhile_append1 dropWhile_append1)
      with \<open>\<not> is_space c\<close> 2 show ?thesis by simp
    qed
  qed
qed

lemma split_ws_leading: "\<forall>c\<in>set ws. is_space c \<Longrightarrow> split_ws (ws @ s) = split_ws s"
  by (induction ws) auto

text \<open>
  Claim C4. Two files whose corresponding lines have the same whitespace-separated
  tokens are read to the same result. The tokens of a line do not change when whitespace
  is put in front of it, nor when the whitespace between two columns is lengthened or is
  of another kind (a tab for a space).
\<close>

theorem read_parameters_txt_whitespace:
  "(files1 pfile1 = Some text1 \<and> files2 pfile2 = Some text2 \<and>
    map split_ws (splitlines text1) = map split_ws (splitlines text2) \<longrightarrow>
      read_parameters_txt py_int py_float files1 pfile1
        = read_parameters_txt py_int py_float files2 pfile2)
   \<and> ((\<forall>c\<in>set ws. is_space c) \<longrightarrow> split_ws (ws @ line) = split_ws line)
   \<and> ((\<forall>c\<in>set ws. is_space c) \<and> is_space g \<and> is_space g' \<longrightarrow>
         split_ws (key @ g # ws @ val) = split_ws (key @ g' # val))"
proof (intro conjI impI)
  assume a: "files1 pfile1 = Some text1 \<and> files2 pfile2 = Some text2 \<and>
    map split_ws (splitlines text1) = map split_ws (splitlines text2)"
  have "map (\<lambda>line. join '':'' (split_ws line)) ls = map (join '':'') (map split_ws ls)" for ls
    by simp
  with a show "read_parameters_txt py_int py_float files1 pfile1
        = read_parameters_txt py_int py_float files2 pfile2"
    unfolding read_parameters_txt_def Let_def by (simp del: map_map)
next
  assume "\<forall>c\<in>set ws. is_space c"
  then show "split_ws (ws @ line) = split_ws line" by (rule split_ws_leading)
next
  assume "(\<forall>c\<in>set ws. is_space c) \<and> is_space g \<and> is_space g'"
  then show "split_ws (key @ g # ws @ val) = split_ws (key @ g' # val)"
    by (simp add: split_ws_append_space split_ws_leading)
qed

lemma join_split_char: "join [sep] (split_char sep s) = s"
proof (induction s)
  case Nil
  then show ?case by simp
next
  case (Cons c cs)
  show ?case
  proof (cases "c = sep")
    case True
    obtain x xs where "split_char sep cs = x # xs"
      using split_char_not_Nil [of sep cs] by (cases "split_char sep cs") auto
    with True Cons show ?thesis by simp
  next
    case False
    obtain x xs where e: "split_char sep cs = x # xs"
      using split_char_not_Nil [of sep cs] by (cases "split_char sep cs") auto
    with False Cons show ?thesis by (cases xs) auto
  qed
qed

lemma split_char_inj: "split_char sep a = split_char sep b \<Longrightarrow> a = b"
  by (metis join_split_char)

lemma fields_key_value:
  "CHR '':'' \<notin> set v \<Longrightarrow>
     split_char CHR '':'' (k @ CHR '':'' # v) = split_char CHR '':'' k @ [v]"
  by (simp add: split_char_append split_char_no_sep)

lemma add_line_plain:
  "split_char CHR '':'' line = [k, v] \<Longrightarrow>
     add_line py_int py_float param line
       = Inr (od_set k (Scalar (check_if_number py_int py_float v)) param)"
  by (simp add: add_line_def)

lemma add_line_nested:
  "split_char CHR '':'' line = [p, n, v] \<Longrightarrow>
     add_line py_int py_float param line =
       (case map_of param p of
          None \<Rightarrow> Inr (od_set p (Nested (od_set n (check_if_number py_int py_float v) [])) param)
        | Some (Nested d) \<Rightarrow>
            Inr (od_set p (Nested (od_set n (check_if_number py_int py_float v) d)) param)
        | Some (Scalar x) \<Rightarrow> Inl TypeError)"
  by (simp add: add_line_def Let_def eval_nat_numeral split: option.split entry.split)

lemma add_line_nested_ok:
  assumes f: "split_char CHR '':'' line = [p, n, v]"
    and a: "add_line py_int py_float param line = Inr p'"
  shows "\<exists>d0. p' = od_set p (Nested (od_set n (check_if_number py_int py_float v) d0)) param \<and>
           (map_of param p = None \<and> d0 = [] \<or> map_of param p = Some (Nested d0))"
proof (cases "map_of param p")
  case None
  with add_line_nested [OF f, of py_int py_float param] a show ?thesis by simp
next
  case (Some e)
  with add_line_nested [OF f, of py_int py_float param] a show ?thesis by (cases e) simp_all
qed

lemma has_entry_plain:
  "split_char CHR '':'' k = [K] \<Longrightarrow> has_entry p k x \<longleftrightarrow> map_of p K = Some (Scalar x)"
  by (simp add: has_entry_def)

lemma has_entry_nested:
  "split_char CHR '':'' k = [P, N] \<Longrightarrow>
     has_entry p k x \<longleftrightarrow> (\<exists>d. map_of p P = Some (Nested d) \<and> map_of d N = Some x)"
  by (auto simp: has_entry_def split: option.splits entry.splits)

lemma has_entry_cases:
  assumes "has_entry p k x"
  obtains K where "split_char CHR '':'' k = [K]"
  | P N where "split_char CHR '':'' k = [P, N]"
  using assms unfolding has_entry_def
  by (auto split: list.splits)

lemma key_cases:
  assumes "length (split_char CHR '':'' k) \<le> 2"
  obtains K where "split_char CHR '':'' k = [K]"
  | P N where "split_char CHR '':'' k = [P, N]"
proof (cases "split_char CHR '':'' k")
  case Nil
  then show ?thesis using split_char_not_Nil by blast
next
  case (Cons a as)
  with assms that show ?thesis by (cases as) auto
qed

text \<open>One key-value line, seen through its key token.\<close>

lemma add_kv_sets:
  assumes v: "CHR '':'' \<notin> set v" and k: "length (split_char CHR '':'' k) \<le> 2"
    and ns: "length (split_char CHR '':'' k) = 2 \<longrightarrow>
               (\<forall>x. map_of param (hd (split_char CHR '':'' k)) \<noteq> Some (Scalar x))"
  shows "\<exists>p'. add_line py_int py_float param (k @ CHR '':'' # v) = Inr p' \<and>
           has_entry p' k (check_if_number py_int py_float v)"
proof -
  let ?c = "check_if_number py_int py_float v"
  from k show ?thesis
  proof (cases rule: key_cases)
    case (1 K)
    then have "split_char CHR '':'' (k @ CHR '':'' # v) = [K, v]"
      using v by (simp add: fields_key_value)
    then have "add_line py_int py_float param (k @ CHR '':'' # v) = Inr (od_set K (Scalar ?c) param)"
      by (rule add_line_plain)
    then show ?thesis using 1 by (simp add: has_entry_plain map_of_od_set)
  next
    case (2 P N)
    then have f: "split_char CHR '':'' (k @ CHR '':'' # v) = [P, N, v]"
      using v by (simp add: fields_key_value)
    from 2 ns have nsc: "\<forall>x. map_of param P \<noteq> Some (Scalar x)" by simp
    note al = add_line_nested [OF f, of py_int py_float param]
    show ?thesis
    proof (cases "map_of param P")
      case None
      with al 2 show ?thesis by (simp add: has_entry_nested map_of_od_set)
    next
      case (Some e)
      with nsc obtain d where "e = Nested d" by (cases e) auto
      with Some al 2 show ?thesis by (simp add: has_entry_nested map_of_od_set)
    qed
  qed
qed

lemma add_kv_scalars:
  assumes a: "add_line py_int py_float param (k @ CHR '':'' # v) = Inr p'"
    and v: "CHR '':'' \<notin> set v" and k: "length (split_char CHR '':'' k) \<le> 2"
    and q: "map_of p' q = Some (Scalar x)"
  shows "(\<exists>y. map_of param q = Some (Scalar y)) \<or> split_char CHR '':'' k = [q]"
proof -
  from k show ?thesis
  proof (cases rule: key_cases)
    case (1 K)
    then have "split_char CHR '':'' (k @ CHR '':'' # v) = [K, v]"
      using v by (simp add: fields_key_value)
    from add_line_plain [OF this, of py_int py_float param] a
    have "p' = od_set K (Scalar (check_if_number py_int py_float v)) param" by simp
    with q 1 show ?thesis by (auto simp: map_of_od_set split: if_splits)
  next
    case (2 P N)
    then have f: "split_char CHR '':'' (k @ CHR '':'' # v) = [P, N, v]"
      using v by (simp add: fields_key_value)
    from add_line_nested_ok [OF f a] q show ?thesis
      by (auto simp: map_of_od_set split: if_splits)
  qed
qed

lemma add_kv_keeps:
  assumes a: "add_line py_int py_float param (k' @ CHR '':'' # v') = Inr p'"
    and v: "CHR '':'' \<notin> set v'" and k: "length (split_char CHR '':'' k') \<le> 2"
    and h: "has_entry param k x" and ne: "k' \<noteq> k"
    and d1: "length (split_char CHR '':'' k) = 1 \<longrightarrow> length (split_char CHR '':'' k') = 2 \<longrightarrow>
               k \<noteq> hd (split_char CHR '':'' k')"
    and d2: "length (split_char CHR '':'' k') = 1 \<longrightarrow> length (split_char CHR '':'' k) = 2 \<longrightarrow>
               k' \<noteq> hd (split_char CHR '':'' k)"
  shows "has_entry p' k x"
proof -
  have sne: "split_char CHR '':'' k' \<noteq> split_char CHR '':'' k"
    using ne split_char_inj by blast
  from k show ?thesis
  proof (cases rule: key_cases)
    case (1 K')
    then have k'K: "k' = K'" using split_char_length_one [of "CHR '':''" k'] by simp
    from 1 have "split_char CHR '':'' (k' @ CHR '':'' # v') = [K', v']"
      using v by (simp add: fields_key_value)
    from add_line_plain [OF this, of py_int py_float param] a
    have p': "p' = od_set K' (Scalar (check_if_number py_int py_float v')) param" by simp
    from h show ?thesis
    proof (cases rule: has_entry_cases)
      case (1 K)
      with \<open>split_char CHR '':'' k' = [K']\<close> sne have "K \<noteq> K'" by auto
      with 1 h p' show ?thesis by (simp add: has_entry_plain map_of_od_set)
    next
      case (2 P N)
      with \<open>split_char CHR '':'' k' = [K']\<close> d2 k'K have "K' \<noteq> P" by simp
      with 2 h p' show ?thesis by (simp add: has_entry_nested map_of_od_set)
    qed
  next
    case (2 P' N')
    then have f3: "split_char CHR '':'' (k' @ CHR '':'' # v') = [P', N', v']"
      using v by (simp add: fields_key_value)
    from add_line_nested_ok [OF f3 a] obtain d0 where
      p': "p' = od_set P' (Nested (od_set N' (check_if_number py_int py_float v') d0)) param"
      and d0: "map_of param P' = None \<and> d0 = [] \<or> map_of param P' = Some (Nested d0)"
      by blast
    from h show ?thesis
    proof (cases rule: has_entry_cases)
      case (1 K)
      then have "k = K" using split_char_length_one [of "CHR '':''" k] by simp
      with 1 \<open>split_char CHR '':'' k' = [P', N']\<close> d1 have "K \<noteq> P'" by simp
      with 1 h p' show ?thesis by (simp add: has_entry_plain map_of_od_set)
    next
      case (2 P N)
      from h 2 obtain d where d: "map_of param P = Some (Nested d)" "map_of d N = Some x"
        by (auto simp: has_entry_nested)
      show ?thesis
      proof (cases "P = P'")
        case True
        with d d0 have "d0 = d" by auto
        moreover from True 2 \<open>split_char CHR '':'' k' = [P', N']\<close> sne have "N' \<noteq> N" by auto
        ultimately show ?thesis using 2 p' d True by (simp add: has_entry_nested map_of_od_set)
      next
        case False
        with 2 p' d show ?thesis by (simp add: has_entry_nested map_of_od_set)
      qed
    qed
  qed
qed

lemma read_kvs_keeps:
  assumes "read_lines py_int py_float param (map (\<lambda>(k, v). k @ CHR '':'' # v) kvs) = Inr p'"
    and "has_entry param k x"
    and "\<forall>(k', v')\<in>set kvs. CHR '':'' \<notin> set v' \<and> length (split_char CHR '':'' k') \<le> 2 \<and> k' \<noteq> k
           \<and> (length (split_char CHR '':'' k) = 1 \<longrightarrow> length (split_char CHR '':'' k') = 2 \<longrightarrow>
                 k \<noteq> hd (split_char CHR '':'' k'))
           \<and> (length (split_char CHR '':'' k') = 1 \<longrightarrow> length (split_char CHR '':'' k) = 2 \<longrightarrow>
                 k' \<noteq> hd (split_char CHR '':'' k))"
  shows "has_entry p' k x"
  using assms
proof (induction kvs arbitrary: param)
  case Nil
  then show ?case by simp
next
  case (Cons kv kvs)
  obtain k' v' where kv: "kv = (k', v')" by (cases kv)
  from Cons.prems(1) kv obtain p1 where
    a: "add_line py_int py_float param (k' @ CHR '':'' # v') = Inr p1" and
    r: "read_lines py_int py_float p1 (map (\<lambda>(k, v). k @ CHR '':'' # v) kvs) = Inr p'"
    by (auto split: sum.splits)
  from Cons.prems(3) kv have c:
    "CHR '':'' \<notin> set v'" "length (split_char CHR '':'' k') \<le> 2" "k' \<noteq> k"
    "length (split_char CHR '':'' k) = 1 \<longrightarrow> length (split_char CHR '':'' k') = 2 \<longrightarrow>
                 k \<noteq> hd (split_char CHR '':'' k')"
    "length (split_char CHR '':'' k') = 1 \<longrightarrow> length (split_char CHR '':'' k) = 2 \<longrightarrow>
                 k' \<noteq> hd (split_char CHR '':'' k)"
    by simp_all
  have "has_entry p1 k x"
    using add_kv_keeps [OF a c(1) c(2) Cons.prems(2) c(3) c(4) c(5)] .
  moreover from Cons.prems(3) have "\<forall>(k', v')\<in>set kvs. CHR '':'' \<notin> set v' \<and> length (split_char CHR '':'' k') \<le> 2 \<and> k' \<noteq> k
           \<and> (length (split_char CHR '':'' k) = 1 \<longrightarrow> length (split_char CHR '':'' k') = 2 \<longrightarrow>
                 k \<noteq> hd (split_char CHR '':'' k'))
           \<and> (length (split_char CHR '':'' k') = 1 \<longrightarrow> length (split_char CHR '':'' k) = 2 \<longrightarrow>
                 k' \<noteq> hd (split_char CHR '':'' k))"
    by simp
  ultimately show ?case using Cons.IH [OF r] by blast
qed

lemma read_kvs:
  assumes wf: "\<forall>(k, v)\<in>set kvs. CHR '':'' \<notin> set v \<and> length (split_char CHR '':'' k) \<le> 2"
    and ns: "\<forall>(k, v)\<in>set kvs. length (split_char CHR '':'' k) = 2 \<longrightarrow>
               (\<forall>x. map_of param (hd (split_char CHR '':'' k)) \<noteq> Some (Scalar x))"
    and dj: "\<forall>(k, v)\<in>set kvs. \<forall>(k', v')\<in>set kvs.
               length (split_char CHR '':'' k) = 1 \<longrightarrow> length (split_char CHR '':'' k') = 2 \<longrightarrow>
               k \<noteq> hd (split_char CHR '':'' k')"
  shows "\<exists>p'. read_lines py_int py_float param (map (\<lambda>(k, v). k @ CHR '':'' # v) kvs) = Inr p' \<and>
           (\<forall>pre k v post. kvs = pre @ (k, v) # post \<and> k \<notin> fst ` set post \<longrightarrow>
              has_entry p' k (check_if_number py_int py_float v))"
  using assms
proof (induction kvs arbitrary: param)
  case Nil
  then show ?case by simp
next
  case (Cons kv kvs)
  obtain k0 v0 where kv: "kv = (k0, v0)" by (cases kv)
  from Cons.prems(1) kv have w0: "CHR '':'' \<notin> set v0" "length (split_char CHR '':'' k0) \<le> 2"
    by simp_all
  from Cons.prems(2) kv have n0: "length (split_char CHR '':'' k0) = 2 \<longrightarrow>
               (\<forall>x. map_of param (hd (split_char CHR '':'' k0)) \<noteq> Some (Scalar x))"
    by simp
  from add_kv_sets [OF w0 n0, of py_int py_float] obtain p1 where
    a: "add_line py_int py_float param (k0 @ CHR '':'' # v0) = Inr p1" and
    h: "has_entry p1 k0 (check_if_number py_int py_float v0)"
    by blast
  have wf': "\<forall>(k, v)\<in>set kvs. CHR '':'' \<notin> set v \<and> length (split_char CHR '':'' k) \<le> 2"
    using Cons.prems(1) by simp
  have dj': "\<forall>(k, v)\<in>set kvs. \<forall>(k', v')\<in>set kvs.
               length (split_char CHR '':'' k) = 1 \<longrightarrow> length (split_char CHR '':'' k') = 2 \<longrightarrow>
               k \<noteq> hd (split_char CHR '':'' k')"
    using Cons.prems(3) by (simp add: case_prod_beta)
  have ns': "\<forall>(k, v)\<in>set kvs. length (split_char CHR '':'' k) = 2 \<longrightarrow>
               (\<forall>x. map_of p1 (hd (split_char CHR '':'' k)) \<noteq> Some (Scalar x))"
  proof (clarify)
    fix k v x
    assume kv': "(k, v) \<in> set kvs" and l2: "length (split_char CHR '':'' k) = 2"
      and sc: "map_of p1 (hd (split_char CHR '':'' k)) = Some (Scalar x)"
    from add_kv_scalars [OF a w0 sc]
    show False
    proof
      assume "\<exists>y. map_of param (hd (split_char CHR '':'' k)) = Some (Scalar y)"
      with Cons.prems(2) kv' l2 show False by auto
    next
      assume s: "split_char CHR '':'' k0 = [hd (split_char CHR '':'' k)]"
      then have "k0 = hd (split_char CHR '':'' k)"
        using split_char_length_one [of "CHR '':''" k0] by simp
      moreover from s have "length (split_char CHR '':'' k0) = 1" by simp
      ultimately show False using Cons.prems(3) kv kv' l2 by auto
    qed
  qed
  from Cons.IH [OF wf' ns' dj'] obtain p' where
    r: "read_lines py_int py_float p1 (map (\<lambda>(k, v). k @ CHR '':'' # v) kvs) = Inr p'" and
    e: "\<forall>pre k v post. kvs = pre @ (k, v) # post \<and> k \<notin> fst ` set post \<longrightarrow>
              has_entry p' k (check_if_number py_int py_float v)"
    by blast
  have r0: "read_lines py_int py_float param (map (\<lambda>(k, v). k @ CHR '':'' # v) (kv # kvs)) = Inr p'"
    using a r kv by simp
  have "has_entry p' k (check_if_number py_int py_float v)"
    if d: "kv # kvs = pre @ (k, v) # post" and l: "k \<notin> fst ` set post" for pre k v post
  proof (cases pre)
    case Nil
    with d kv have eq: "k = k0" "v = v0" "post = kvs" by simp_all
    have "\<forall>(k', v')\<in>set kvs. CHR '':'' \<notin> set v' \<and> length (split_char CHR '':'' k') \<le> 2 \<and> k' \<noteq> k0
           \<and> (length (split_char CHR '':'' k0) = 1 \<longrightarrow> length (split_char CHR '':'' k') = 2 \<longrightarrow>
                 k0 \<noteq> hd (split_char CHR '':'' k'))
           \<and> (length (split_char CHR '':'' k') = 1 \<longrightarrow> length (split_char CHR '':'' k0) = 2 \<longrightarrow>
                 k' \<noteq> hd (split_char CHR '':'' k0))"
    proof (clarify, intro conjI)
      fix k' v'
      assume m: "(k', v') \<in> set kvs"
      show "CHR '':'' \<notin> set v'" "length (split_char CHR '':'' k') \<le> 2"
        using wf' m by auto
      show "k' \<noteq> k0" using l eq m by force
      show "length (split_char CHR '':'' k0) = 1 \<longrightarrow> length (split_char CHR '':'' k') = 2 \<longrightarrow>
                 k0 \<noteq> hd (split_char CHR '':'' k')"
        using Cons.prems(3) kv m by auto
      show "length (split_char CHR '':'' k') = 1 \<longrightarrow> length (split_char CHR '':'' k0) = 2 \<longrightarrow>
                 k' \<noteq> hd (split_char CHR '':'' k0)"
        using Cons.prems(3) kv m by auto
    qed
    from read_kvs_keeps [OF r h this] eq show ?thesis by simp
  next
    case (Cons x xs)
    with d have "kvs = xs @ (k, v) # post" by simp
    with e l show ?thesis by blast
  qed
  with r0 show ?case by blast
qed

lemma length_split_char: "length (split_char sep s) = Suc (count_list s sep)"
  by (induction s) (auto split: list.splits simp: split_char_not_Nil)

lemma split_char_two:
  "count_list (p @ sep # n) sep \<le> 1 \<Longrightarrow> split_char sep (p @ sep # n) = [p, n]"
proof -
  assume "count_list (p @ sep # n) sep \<le> 1"
  then have "count_list p sep = 0" "count_list n sep = 0" by simp_all
  then have "sep \<notin> set p" "sep \<notin> set n" by (simp_all add: count_list_0_iff)
  then show ?thesis by (simp add: split_char_append split_char_no_sep)
qed

lemma has_entry_reading:
  assumes h: "has_entry param k c" and k: "count_list k CHR '':'' \<le> 1"
  shows "(CHR '':'' \<notin> set k \<longrightarrow> map_of param k = Some (Scalar c)) \<and>
         (\<forall>p n. k = p @ '':'' @ n \<longrightarrow>
            (\<exists>d. map_of param p = Some (Nested d) \<and> map_of d n = Some c))"
proof -
  have a: "map_of param k = Some (Scalar c)" if "CHR '':'' \<notin> set k"
  proof -
    from that have "split_char CHR '':'' k = [k]" by (rule split_char_no_sep)
    with h show ?thesis by (simp add: has_entry_plain)
  qed
  have b: "\<exists>d. map_of param p = Some (Nested d) \<and> map_of d n = Some c"
    if e: "k = p @ '':'' @ n" for p n
  proof -
    from e k have "split_char CHR '':'' k = [p, n]"
      using split_char_two [of p "CHR '':''" n] by simp
    with h show ?thesis by (simp add: has_entry_nested)
  qed
  from a b show ?thesis by blast
qed

text \<open>
  Claim C3, as amended. Take a parameters file in which every line has exactly two
  whitespace-separated tokens, a key with at most one colon and a value without a colon,
  and in which no key, followed by a colon, begins another key (so no name is both a
  key of its own and a prefix). Then \<open>read_parameters_txt\<close> returns a dict, and for
  every line whose key occurs on no later line: a key without a colon maps directly to
  the converted value of the line, and a key \<open>PREFIX:NAME\<close> gives the nested entry
  \<open>result[PREFIX][NAME]\<close> with the converted value. The conversion is the integer
  where \<open>int\<close> accepts the token, otherwise the float where \<open>float\<close> accepts it, and
  otherwise the token itself.
\<close>

theorem read_parameters_txt_key_value:
  assumes f: "files pfile = Some text"
    and wf: "\<forall>t\<in>set (map split_ws (splitlines text)).
               length t = 2 \<and> CHR '':'' \<notin> set (t ! 1) \<and> count_list (t ! 0) CHR '':'' \<le> 1"
    and dj: "\<forall>s\<in>set (map split_ws (splitlines text)).
             \<forall>t\<in>set (map split_ws (splitlines text)). \<not> prefix (hd s @ '':'') (hd t)"
  shows "\<exists>param. read_parameters_txt py_int py_float files pfile = Inr param \<and>
     (\<forall>pre k v post.
         map split_ws (splitlines text) = pre @ [k, v] # post \<and> k \<notin> hd ` set post \<longrightarrow>
         (CHR '':'' \<notin> set k \<longrightarrow>
            map_of param k = Some (Scalar (check_if_number py_int py_float v))) \<and>
         (\<forall>p n. k = p @ '':'' @ n \<longrightarrow>
            (\<exists>d. map_of param p = Some (Nested d) \<and>
                 map_of d n = Some (check_if_number py_int py_float v)))) \<and>
     (\<forall>v. check_if_number py_int py_float v =
            (case py_int v of
               Some i \<Rightarrow> PInt i
             | None \<Rightarrow> (case py_float v of Some x \<Rightarrow> PFloat x | None \<Rightarrow> PStr v)))"
proof -
  define toks where "toks = map split_ws (splitlines text)"
  define kvs where "kvs = map (\<lambda>t. (hd t, hd (tl t))) toks"
  have tk: "\<exists>k v. t = [k, v] \<and> CHR '':'' \<notin> set v \<and> count_list k CHR '':'' \<le> 1"
    if "t \<in> set toks" for t
  proof -
    from wf that have l: "length t = 2" "CHR '':'' \<notin> set (t ! 1)"
      "count_list (t ! 0) CHR '':'' \<le> 1"
      unfolding toks_def by blast+
    from l(1) obtain k v where "t = [k, v]"
      by (cases t; cases "tl t") auto
    with l show ?thesis by simp
  qed
  have lines: "map (\<lambda>line. join '':'' (split_ws line)) (splitlines text)
                 = map (\<lambda>(k, v). k @ CHR '':'' # v) kvs"
  proof -
    have "join '':'' t = (\<lambda>(k, v). k @ CHR '':'' # v) (hd t, hd (tl t))" if "t \<in> set toks" for t
      using tk [OF that] by auto
    then have "map (join '':'') toks = map (\<lambda>(k, v). k @ CHR '':'' # v) kvs"
      unfolding kvs_def by simp
    then show ?thesis unfolding toks_def by (simp add: comp_def)
  qed
  have kv_tok: "\<exists>t\<in>set toks. t = [k, v]" if "(k, v) \<in> set kvs" for k v
  proof -
    from that obtain t where t: "t \<in> set toks" "(k, v) = (hd t, hd (tl t))"
      unfolding kvs_def by auto
    with tk [OF t(1)] show ?thesis by auto
  qed
  have wf': "\<forall>(k, v)\<in>set kvs. CHR '':'' \<notin> set v \<and> length (split_char CHR '':'' k) \<le> 2"
  proof (clarify)
    fix k v assume "(k, v) \<in> set kvs"
    then obtain t where "t \<in> set toks" "t = [k, v]" using kv_tok by blast
    with tk [of t] show "CHR '':'' \<notin> set v \<and> length (split_char CHR '':'' k) \<le> 2"
      by (auto simp: length_split_char)
  qed
  have ns': "\<forall>(k, v)\<in>set kvs. length (split_char CHR '':'' k) = 2 \<longrightarrow>
               (\<forall>x. map_of ([] :: 'a params) (hd (split_char CHR '':'' k)) \<noteq> Some (Scalar x))"
    by simp
  have dj': "\<forall>(k, v)\<in>set kvs. \<forall>(k', v')\<in>set kvs.
               length (split_char CHR '':'' k) = 1 \<longrightarrow> length (split_char CHR '':'' k') = 2 \<longrightarrow>
               k \<noteq> hd (split_char CHR '':'' k')"
  proof -
    have "k \<noteq> hd (split_char CHR '':'' k')"
      if m: "(k, v) \<in> set kvs" and mm: "(k', v') \<in> set kvs"
        and l: "length (split_char CHR '':'' k') = 2" for k v k' v'
    proof
      assume e: "k = hd (split_char CHR '':'' k')"
      from l obtain P N where pn: "split_char CHR '':'' k' = [P, N]"
        by (cases "split_char CHR '':'' k'"; cases "tl (split_char CHR '':'' k')") auto
      then have "k' = P @ '':'' @ N" using join_split_char [of "CHR '':''" k'] by simp
      with pn e have k': "k' = k @ '':'' @ N" by simp
      from m obtain s where s: "s \<in> set toks" "s = [k, v]" using kv_tok by blast
      from mm obtain t where t: "t \<in> set toks" "t = [k', v']" using kv_tok by blast
      from s t have "s \<in> set (map split_ws (splitlines text))"
        "t \<in> set (map split_ws (splitlines text))" unfolding toks_def by simp_all
      with dj have "\<not> prefix (hd s @ '':'') (hd t)" by blast
      with s t have "k' \<noteq> k @ '':'' @ N" by (auto simp: prefix_def)
      with k' show False by simp
    qed
    then show ?thesis by blast
  qed
  from read_kvs [OF wf' ns' dj', of py_int py_float] obtain param where
    r: "read_lines py_int py_float [] (map (\<lambda>(k, v). k @ CHR '':'' # v) kvs) = Inr param" and
    e: "\<forall>pre k v post. kvs = pre @ (k, v) # post \<and> k \<notin> fst ` set post \<longrightarrow>
              has_entry param k (check_if_number py_int py_float v)"
    by blast
  have res: "read_parameters_txt py_int py_float files pfile = Inr param"
    unfolding read_parameters_txt_def Let_def using f r lines by simp
  have main: "(CHR '':'' \<notin> set k \<longrightarrow>
            map_of param k = Some (Scalar (check_if_number py_int py_float v))) \<and>
         (\<forall>p n. k = p @ '':'' @ n \<longrightarrow>
            (\<exists>d. map_of param p = Some (Nested d) \<and>
                 map_of d n = Some (check_if_number py_int py_float v)))"
    if d: "map split_ws (splitlines text) = pre @ [k, v] # post" and l: "k \<notin> hd ` set post"
    for pre k v post
  proof -
    let ?f = "\<lambda>t. (hd t, hd (tl t))"
    from d have "kvs = map ?f pre @ (k, v) # map ?f post"
      unfolding kvs_def toks_def by simp
    moreover from l have "k \<notin> fst ` set (map ?f post)" by force
    ultimately have h: "has_entry param k (check_if_number py_int py_float v)"
      using e by blast
    from d have "[k, v] \<in> set toks" unfolding toks_def by simp
    from tk [OF this] have "count_list k CHR '':'' \<le> 1" by simp
    from has_entry_reading [OF h this] show ?thesis .
  qed
  have chk: "check_if_number py_int py_float v =
            (case py_int v of
               Some i \<Rightarrow> PInt i
             | None \<Rightarrow> (case py_float v of Some x \<Rightarrow> PFloat x | None \<Rightarrow> PStr v))" for v
    by (simp add: check_if_number_def split: option.split)
  from res main chk show ?thesis by blast
qed

text \<open>
  Two files of key-value lines on which the claim as first stated fails: a value with a
  colon makes a nested entry of a key that has no colon, and a key that is later used as
  a prefix makes the call raise \<open>TypeError\<close>.
\<close>

theorem read_parameters_txt_key_value_counterexample:
  "map split_ws (splitlines ''TIME 12:30'') = [[''TIME'', ''12:30'']]
   \<and> read_parameters_txt int_literal decimal_literal
        [''parameters.txt'' \<mapsto> ''TIME 12:30''] ''parameters.txt''
      = Inr [(''TIME'', Nested [(''12'', PInt 30)])]
   \<and> map split_ws (splitlines ''A 1\<newline>A:B 2'') = [[''A'', ''1''], [''A:B'', ''2'']]
   \<and> read_parameters_txt int_literal decimal_literal
        [''parameters.txt'' \<mapsto> ''A 1\<newline>A:B 2''] ''parameters.txt''
      = Inl TypeError"
  by code_simp

theorem read_parameters_txt_key_value_witness:
  "\<exists>param.
     read_parameters_txt int_literal decimal_literal
       [''parameters.txt'' \<mapsto> ''SENSNAME rms_seed\<newline>RMS_SEED 1000\<newline>GLOBVAR:VOLON_PERMH_CHANNEL 1100\<newline>'']
       ''parameters.txt'' = Inr param
   \<and> map_of param ''SENSNAME'' = Some (Scalar (PStr ''rms_seed''))
   \<and> map_of param ''RMS_SEED'' = Some (Scalar (PInt 1000))
   \<and> (\<exists>d. map_of param ''GLOBVAR'' = Some (Nested d)
          \<and> map_of d ''VOLON_PERMH_CHANNEL'' = Some (PInt 1100))"
proof -
  define contents where
    "contents = ''SENSNAME rms_seed\<newline>RMS_SEED 1000\<newline>GLOBVAR:VOLON_PERMH_CHANNEL 1100\<newline>''"
  define files where "files = [''parameters.txt'' \<mapsto> contents]"
  define l1 where "l1 = [''SENSNAME'', ''rms_seed'']"
  define l2 where "l2 = [''RMS_SEED'', ''1000'']"
  define l3 where "l3 = [''GLOBVAR:VOLON_PERMH_CHANNEL'', ''1100'']"
  have toks: "map split_ws (splitlines contents) = [l1, l2, l3]"
    unfolding contents_def l1_def l2_def l3_def by code_simp
  have f: "files ''parameters.txt'' = Some contents" by (simp add: files_def)
  have wf: "\<forall>t\<in>set (map split_ws (splitlines contents)).
               length t = 2 \<and> CHR '':'' \<notin> set (t ! 1) \<and> count_list (t ! 0) CHR '':'' \<le> 1"
    unfolding contents_def by code_simp
  have dj: "\<forall>s\<in>set (map split_ws (splitlines contents)).
             \<forall>t\<in>set (map split_ws (splitlines contents)). \<not> prefix (hd s @ '':'') (hd t)"
    unfolding contents_def by code_simp
  from read_parameters_txt_key_value
    [of files "''parameters.txt''" contents int_literal decimal_literal, OF f wf dj]
  obtain param where
    r: "read_parameters_txt int_literal decimal_literal files ''parameters.txt'' = Inr param"
    and e: "\<forall>pre k v post.
         map split_ws (splitlines contents) = pre @ [k, v] # post \<and> k \<notin> hd ` set post \<longrightarrow>
         (CHR '':'' \<notin> set k \<longrightarrow>
            map_of param k = Some (Scalar (check_if_number int_literal decimal_literal v))) \<and>
         (\<forall>p n. k = p @ '':'' @ n \<longrightarrow>
            (\<exists>d. map_of param p = Some (Nested d) \<and>
                 map_of d n = Some (check_if_number int_literal decimal_literal v)))"
    by blast
  have c1: "check_if_number int_literal decimal_literal ''rms_seed'' = PStr ''rms_seed''"
    by code_simp
  have c2: "check_if_number int_literal decimal_literal ''1000'' = PInt 1000"
    by code_simp
  have c3: "check_if_number int_literal decimal_literal ''1100'' = PInt 1100"
    by code_simp
  have n1: "''SENSNAME'' \<notin> hd ` set [l2, l3]" unfolding l2_def l3_def by simp
  have n2: "''RMS_SEED'' \<notin> hd ` set [l3]" unfolding l3_def by simp
  have d1: "[l1, l2, l3] = [] @ [''SENSNAME'', ''rms_seed''] # [l2, l3]" by (simp add: l1_def)
  have d2: "[l1, l2, l3] = [l1] @ [''RMS_SEED'', ''1000''] # [l3]" by (simp add: l2_def)
  have d3: "[l1, l2, l3] = [l1, l2] @ [''GLOBVAR:VOLON_PERMH_CHANNEL'', ''1100''] # []"
    by (simp add: l3_def)
  have "map_of param ''SENSNAME'' = Some (Scalar (PStr ''rms_seed''))"
    using e [rule_format, of "[]" "''SENSNAME''" "''rms_seed''" "[l2, l3]"] d1 n1
    unfolding toks c1 by simp
  moreover have "map_of param ''RMS_SEED'' = Some (Scalar (PInt 1000))"
    using e [rule_format, of "[l1]" "''RMS_SEED''" "''1000''" "[l3]"] d2 n2
    unfolding toks c2 by simp
  moreover have "\<exists>d. map_of param ''GLOBVAR'' = Some (Nested d)
          \<and> map_of d ''VOLON_PERMH_CHANNEL'' = Some (PInt 1100)"
  proof -
    have "\<forall>p n. ''GLOBVAR:VOLON_PERMH_CHANNEL'' = p @ '':'' @ n \<longrightarrow>
            (\<exists>d. map_of param p = Some (Nested d) \<and> map_of d n = Some (PInt 1100))"
      using e [rule_format, of "[l1, l2]" "''GLOBVAR:VOLON_PERMH_CHANNEL''" "''1100''" "[]"] d3
      unfolding toks c3 by simp
    then have "''GLOBVAR:VOLON_PERMH_CHANNEL'' = ''GLOBVAR'' @ '':'' @ ''VOLON_PERMH_CHANNEL'' \<longrightarrow>
            (\<exists>d. map_of param ''GLOBVAR'' = Some (Nested d) \<and>
                 map_of d ''VOLON_PERMH_CHANNEL'' = Some (PInt 1100))"
      by (rule allE) (erule allE)
    then show ?thesis by simp
  qed
  ultimately show ?thesis using r unfolding files_def contents_def by blast
qed

theorem read_parameters_txt_whitespace_witness:
  "read_parameters_txt int_literal decimal_literal
     [''compact.txt'' \<mapsto> ''RMS_SEED 1000\<newline>GLOBVAR:VOLON_PERMH_CHANNEL 1100\<newline>'']
     ''compact.txt''
   = read_parameters_txt int_literal decimal_literal
     [''justified.txt'' \<mapsto> ''                   RMS_SEED     1000\<newline>GLOBVAR:VOLON_PERMH_CHANNEL'' @ [CHR 0x09] @ ''1100'']
     ''justified.txt''
   \<and> split_ws (''   '' @ ''RMS_SEED 1000'') = split_ws ''RMS_SEED 1000''
   \<and> split_ws (''RMS_SEED'' @ CHR '' '' # ''   '' @ ''1000'')
       = split_ws (''RMS_SEED'' @ CHR 0x09 # ''1000'')"
proof -
  define a where "a = ''RMS_SEED 1000\<newline>GLOBVAR:VOLON_PERMH_CHANNEL 1100\<newline>''"
  define b where "b = ''                   RMS_SEED     1000\<newline>GLOBVAR:VOLON_PERMH_CHANNEL'' @ [CHR 0x09] @ ''1100''"
  have e: "map split_ws (splitlines a) = map split_ws (splitlines b)"
    unfolding a_def b_def by code_simp
  have h: "[''compact.txt'' \<mapsto> a] ''compact.txt'' = Some a
         \<and> [''justified.txt'' \<mapsto> b] ''justified.txt'' = Some b
         \<and> map split_ws (splitlines a) = map split_ws (splitlines b)"
    using e by simp
  have s: "(\<forall>c\<in>set ''   ''. is_space c)" "is_space CHR '' ''" "is_space (CHR 0x09)"
    by (simp_all add: is_space_def)
  note t = read_parameters_txt_whitespace
    [of "[''compact.txt'' \<mapsto> a]" "''compact.txt''" a
        "[''justified.txt'' \<mapsto> b]" "''justified.txt''" b int_literal decimal_literal
        "''   ''" "''RMS_SEED 1000''" "CHR '' ''" "CHR 0x09" "''RMS_SEED''" "''1000''"]
  from t h s show ?thesis unfolding a_def b_def by blast
qed

text \<open>
  Claim C10, as amended. Processing a line raises \<open>RuntimeError\<close> exactly when its
  tokens, joined with a colon, split at the colons into fewer than 2 or more than 3
  fields; \<open>read_parameters_txt\<close> raises \<open>RuntimeError\<close> exactly when the file has such a
  line and all lines before it were processed without an error. A blank or
  whitespace-only line raises it, and so does a line of a single token without a colon.
  A line of three tokens without colons, \<open>A B C\<close>, is accepted as the nested entry
  \<open>result[A][B] = C\<close>, where \<open>A\<close> does not already hold a value that is not a dict.
\<close>

theorem read_parameters_txt_RuntimeError:
  "((\<exists>msg. add_line py_int py_float param line = Inl (RuntimeError msg)) \<longleftrightarrow>
      (length (split_char CHR '':'' line) < 2 \<or> 3 < length (split_char CHR '':'' line)))
   \<and> (files pfile = Some text \<longrightarrow>
        ((\<exists>msg. read_parameters_txt py_int py_float files pfile = Inl (RuntimeError msg)) \<longleftrightarrow>
         (\<exists>pre bad post param'.
            map (\<lambda>l. join '':'' (split_ws l)) (splitlines text) = pre @ bad # post \<and>
            read_lines py_int py_float [] pre = Inr param' \<and>
            (length (split_char CHR '':'' bad) < 2 \<or> 3 < length (split_char CHR '':'' bad)))))
   \<and> ((\<forall>c\<in>set raw. is_space c) \<longrightarrow>
        (\<exists>msg. add_line py_int py_float param (join '':'' (split_ws raw)) = Inl (RuntimeError msg)))
   \<and> (split_ws raw = [t] \<and> CHR '':'' \<notin> set t \<longrightarrow>
        (\<exists>msg. add_line py_int py_float param (join '':'' (split_ws raw)) = Inl (RuntimeError msg)))
   \<and> (split_ws raw = [a, b, c] \<and> CHR '':'' \<notin> set a \<and> CHR '':'' \<notin> set b \<and> CHR '':'' \<notin> set c
        \<and> (\<forall>x. map_of param a \<noteq> Some (Scalar x)) \<longrightarrow>
        (\<exists>param' d. add_line py_int py_float param (join '':'' (split_ws raw)) = Inr param' \<and>
           map_of param' a = Some (Nested d) \<and>
           map_of d b = Some (check_if_number py_int py_float c)))"
proof (intro conjI impI)
  show "(\<exists>msg. add_line py_int py_float param line = Inl (RuntimeError msg)) \<longleftrightarrow>
      (length (split_char CHR '':'' line) < 2 \<or> 3 < length (split_char CHR '':'' line))"
    by (rule add_line_RuntimeError)
next
  assume "files pfile = Some text"
  then show "(\<exists>msg. read_parameters_txt py_int py_float files pfile = Inl (RuntimeError msg)) \<longleftrightarrow>
         (\<exists>pre bad post param'.
            map (\<lambda>l. join '':'' (split_ws l)) (splitlines text) = pre @ bad # post \<and>
            read_lines py_int py_float [] pre = Inr param' \<and>
            (length (split_char CHR '':'' bad) < 2 \<or> 3 < length (split_char CHR '':'' bad)))"
    unfolding read_parameters_txt_def Let_def
    by (simp add: read_lines_RuntimeError)
next
  assume "\<forall>c\<in>set raw. is_space c"
  then have "split_ws raw = []" by (rule split_ws_all_space)
  then have "length (split_char CHR '':'' (join '':'' (split_ws raw))) < 2" by simp
  then show "\<exists>msg. add_line py_int py_float param (join '':'' (split_ws raw)) = Inl (RuntimeError msg)"
    by (simp add: add_line_RuntimeError)
next
  assume "split_ws raw = [t] \<and> CHR '':'' \<notin> set t"
  then have "length (split_char CHR '':'' (join '':'' (split_ws raw))) < 2"
    by (simp add: split_char_no_sep)
  then show "\<exists>msg. add_line py_int py_float param (join '':'' (split_ws raw)) = Inl (RuntimeError msg)"
    by (simp add: add_line_RuntimeError)
next
  assume h: "split_ws raw = [a, b, c] \<and> CHR '':'' \<notin> set a \<and> CHR '':'' \<notin> set b \<and> CHR '':'' \<notin> set c
        \<and> (\<forall>x. map_of param a \<noteq> Some (Scalar x))"
  then have f: "split_char CHR '':'' (join '':'' (split_ws raw)) = [a, b, c]"
    by (simp add: split_char_append split_char_no_sep)
  note al = add_line_nested [OF f, of py_int py_float param]
  show "\<exists>param' d. add_line py_int py_float param (join '':'' (split_ws raw)) = Inr param' \<and>
           map_of param' a = Some (Nested d) \<and>
           map_of d b = Some (check_if_number py_int py_float c)"
  proof (cases "map_of param a")
    case None
    with al show ?thesis by (simp add: map_of_od_set)
  next
    case (Some e)
    with h obtain d where "e = Nested d" by (cases e) auto
    with Some al show ?thesis by (simp add: map_of_od_set)
  qed
qed

text \<open>
  A line of a single token is not always refused: a token with a colon has two fields
  and is read as a key and its value.
\<close>

theorem read_parameters_txt_RuntimeError_counterexample:
  "split_ws ''GLOBVAR:VOLON_PORO_CHANNEL'' = [''GLOBVAR:VOLON_PORO_CHANNEL'']
   \<and> read_parameters_txt int_literal decimal_literal
        [''parameters.txt'' \<mapsto> ''GLOBVAR:VOLON_PORO_CHANNEL''] ''parameters.txt''
      = Inr [(''GLOBVAR'', Scalar (PStr ''VOLON_PORO_CHANNEL''))]"
  by code_simp

theorem read_parameters_txt_RuntimeError_witness:
  "(\<exists>msg. read_parameters_txt int_literal decimal_literal
             [''parameters.txt'' \<mapsto> ''RMS_SEED 1000\<newline>\<newline>KVKH 0.6''] ''parameters.txt''
           = Inl (RuntimeError msg))
   \<and> (\<exists>msg. add_line int_literal decimal_literal [] (join '':'' (split_ws ''    ''))
           = Inl (RuntimeError msg))
   \<and> (\<exists>msg. add_line int_literal decimal_literal [] (join '':'' (split_ws ''  RMS_SEED ''))
           = Inl (RuntimeError msg))
   \<and> (\<exists>param' d. add_line int_literal decimal_literal [] (join '':'' (split_ws ''A B C'')) = Inr param'
         \<and> map_of param' ''A'' = Some (Nested d) \<and> map_of d ''B'' = Some (PStr ''C''))"
proof -
  define contents where "contents = ''RMS_SEED 1000\<newline>\<newline>KVKH 0.6''"
  define files where "files = [''parameters.txt'' \<mapsto> contents]"
  have f: "files ''parameters.txt'' = Some contents" by (simp add: files_def)
  have l: "map (\<lambda>l. join '':'' (split_ws l)) (splitlines contents)
             = [''RMS_SEED:1000''] @ [] # [''KVKH:0.6'']"
    unfolding contents_def by code_simp
  have p: "read_lines int_literal decimal_literal [] [''RMS_SEED:1000'']
             = Inr [(''RMS_SEED'', Scalar (PInt 1000))]"
    by code_simp
  have b: "length (split_char CHR '':'' []) < 2" by simp
  have "\<exists>pre bad post param'.
            map (\<lambda>l. join '':'' (split_ws l)) (splitlines contents) = pre @ bad # post \<and>
            read_lines int_literal decimal_literal ([] :: rat params) pre = Inr param' \<and>
            (length (split_char CHR '':'' bad) < 2 \<or> 3 < length (split_char CHR '':'' bad))"
    using l p b by blast
  with f read_parameters_txt_RuntimeError
    [of int_literal decimal_literal "[]" "[]" files "''parameters.txt''" contents]
  have 1: "\<exists>msg. read_parameters_txt int_literal decimal_literal files ''parameters.txt''
           = Inl (RuntimeError msg)"
    by blast
  have s: "\<forall>c\<in>set ''    ''. is_space c" by (simp add: is_space_def)
  with read_parameters_txt_RuntimeError
    [of int_literal decimal_literal "[]" "[]" Map.empty "[]" "[]" "''    ''"]
  have 2: "\<exists>msg. add_line int_literal decimal_literal ([] :: rat params)
             (join '':'' (split_ws ''    '')) = Inl (RuntimeError msg)"
    by blast
  have t: "split_ws ''  RMS_SEED '' = [''RMS_SEED''] \<and> CHR '':'' \<notin> set ''RMS_SEED''"
    by code_simp
  with read_parameters_txt_RuntimeError
    [of int_literal decimal_literal "[]" "[]" Map.empty "[]" "[]" "''  RMS_SEED ''" "''RMS_SEED''"]
  have 3: "\<exists>msg. add_line int_literal decimal_literal ([] :: rat params)
             (join '':'' (split_ws ''  RMS_SEED '')) = Inl (RuntimeError msg)"
    by blast
  have u: "split_ws ''A B C'' = [''A'', ''B'', ''C''] \<and> CHR '':'' \<notin> set ''A''
        \<and> CHR '':'' \<notin> set ''B'' \<and> CHR '':'' \<notin> set ''C''
        \<and> (\<forall>x. map_of ([] :: rat params) ''A'' \<noteq> Some (Scalar x))"
  proof -
    have "split_ws ''A B C'' = [''A'', ''B'', ''C'']" by code_simp
    then show ?thesis by simp
  qed
  have c: "check_if_number int_literal decimal_literal ''C'' = PStr ''C''" by code_simp
  from u read_parameters_txt_RuntimeError
    [of int_literal decimal_literal "[]" "[]" Map.empty "[]" "[]" "''A B C''" "[]"
        "''A''" "''B''" "''C''"]
  have 4: "\<exists>param' d. add_line int_literal decimal_literal ([] :: rat params)
             (join '':'' (split_ws ''A B C'')) = Inr param'
         \<and> map_of param' ''A'' = Some (Nested d) \<and> map_of d ''B'' = Some (PStr ''C'')"
    unfolding c by blast
  from 1 2 3 4 show ?thesis unfolding files_def contents_def by blast
qed

section \<open>Properties of drop\_nones\<close>

lemma od_set_fresh: "k \<notin> fst ` set d \<Longrightarrow> od_set k v d = d @ [(k, v)]"
  by (induction d) auto

lemma fold_od_set_distinct:
  assumes "distinct (map fst items)" and "fst ` set items \<inter> fst ` set acc = {}"
  shows "fold (\<lambda>(k, v) dd. if skip v then dd else od_set k (img v) dd) items acc
           = acc @ map (\<lambda>(k, v). (k, img v)) (filter (\<lambda>(k, v). \<not> skip v) items)"
  using assms
proof (induction items arbitrary: acc)
  case Nil
  then show ?case by simp
next
  case (Cons kv items)
  obtain k v where kv: "kv = (k, v)" by (cases kv)
  show ?case
  proof (cases "skip v")
    case True
    with Cons kv show ?thesis by auto
  next
    case False
    from Cons.prems kv have fresh: "k \<notin> fst ` set acc" by auto
    have i: "fst ` set items \<inter> fst ` set (acc @ [(k, img v)]) = {}"
      using Cons.prems kv by auto
    have d: "distinct (map fst items)" using Cons.prems by simp
    have "fold (\<lambda>(k, v) dd. if skip v then dd else od_set k (img v) dd) items
                       (acc @ [(k, img v)])
           = (acc @ [(k, img v)]) @ map (\<lambda>(k, v). (k, img v)) (filter (\<lambda>(k, v). \<not> skip v) items)"
      by (rule Cons.IH [OF d i])
    with False kv fresh show ?thesis by (simp add: od_set_fresh)
  qed
qed

lemma drop_nones_step:
  "drop_nones dinput =
     fold (\<lambda>(key, val) dd.
             if val = VNone then dd
             else od_set key
                    (case val of
                       VDict d \<Rightarrow> VDict (drop_nones d)
                     | VList xs \<Rightarrow>
                         VList (map (\<lambda>vv. case vv of VDict d \<Rightarrow> VDict (drop_nones d) | _ \<Rightarrow> vv) xs)
                     | VSet xs \<Rightarrow>
                         VSet (map (\<lambda>vv. case vv of VDict d \<Rightarrow> VDict (drop_nones d) | _ \<Rightarrow> vv) xs)
                     | VTuple xs \<Rightarrow>
                         VTuple (map (\<lambda>vv. case vv of VDict d \<Rightarrow> VDict (drop_nones d) | _ \<Rightarrow> vv) xs)
                     | _ \<Rightarrow> val) dd)
          dinput []"
  by (subst drop_nones.simps, rule fold_cong) (auto simp: fun_eq_iff split: pyobj.splits)


lemma drop_nones_items:
  assumes "distinct (map fst dinput)"
  shows "drop_nones dinput =
     map (\<lambda>(key, val).
            (key, case val of
                    VDict d \<Rightarrow> VDict (drop_nones d)
                  | VList xs \<Rightarrow>
                      VList (map (\<lambda>vv. case vv of VDict d \<Rightarrow> VDict (drop_nones d) | _ \<Rightarrow> vv) xs)
                  | VSet xs \<Rightarrow>
                      VSet (map (\<lambda>vv. case vv of VDict d \<Rightarrow> VDict (drop_nones d) | _ \<Rightarrow> vv) xs)
                  | VTuple xs \<Rightarrow>
                      VTuple (map (\<lambda>vv. case vv of VDict d \<Rightarrow> VDict (drop_nones d) | _ \<Rightarrow> vv) xs)
                  | _ \<Rightarrow> val))
         (filter (\<lambda>(key, val). val \<noteq> VNone) dinput)"
proof -
  have "fst ` set dinput \<inter> fst ` set ([] :: ('a \<times> ('a, 'b) pyobj) list) = {}" by simp
  from fold_od_set_distinct [OF assms this, of "\<lambda>v. v = VNone"] show ?thesis
    by (subst drop_nones_step) simp
qed

lemma map_of_filter_distinct:
  assumes "distinct (map fst xs)" and "map_of xs k = Some v"
  shows "map_of (filter (\<lambda>(k, v). P v) xs) k = (if P v then Some v else None)"
  using assms
proof (induction xs)
  case Nil
  then show ?case by simp
next
  case (Cons a xs)
  obtain k' v' where a: "a = (k', v')" by (cases a)
  show ?case
  proof (cases "k' = k")
    case True
    with Cons.prems a have v: "v' = v" and nk: "k \<notin> fst ` set xs" by auto
    from nk have "k \<notin> fst ` set (filter (\<lambda>(k, v). P v) xs)" by auto
    then have "map_of (filter (\<lambda>(k, v). P v) xs) k = None" by (simp add: map_of_eq_None_iff)
    with True a v show ?thesis by simp
  next
    case False
    with Cons a show ?thesis by auto
  qed
qed

text \<open>
  Claim C5. For a dict (its keys distinct), \<open>drop_nones\<close> returns a dict whose keys are
  the keys of the input whose values are not \<open>None\<close>, in the order of the input. A key
  that is kept maps to the pruned dict where its value is a dict; to a container of the
  same type where its value is a list, a set or a tuple, with every element that is a
  dict pruned and every other element, \<open>None\<close> included, left as it is; and to the value
  itself in every other case. A key whose value is \<open>None\<close> is not in the result.
\<close>

theorem drop_nones_spec:
  assumes "distinct (map fst dinput)"
  shows "map fst (drop_nones dinput) = map fst (filter (\<lambda>(key, val). val \<noteq> VNone) dinput)
    \<and> (\<forall>key val. map_of dinput key = Some val \<and> val \<noteq> VNone \<longrightarrow>
          map_of (drop_nones dinput) key =
            Some (case val of
                    VDict d \<Rightarrow> VDict (drop_nones d)
                  | VList xs \<Rightarrow>
                      VList (map (\<lambda>vv. case vv of VDict d \<Rightarrow> VDict (drop_nones d) | _ \<Rightarrow> vv) xs)
                  | VSet xs \<Rightarrow>
                      VSet (map (\<lambda>vv. case vv of VDict d \<Rightarrow> VDict (drop_nones d) | _ \<Rightarrow> vv) xs)
                  | VTuple xs \<Rightarrow>
                      VTuple (map (\<lambda>vv. case vv of VDict d \<Rightarrow> VDict (drop_nones d) | _ \<Rightarrow> vv) xs)
                  | _ \<Rightarrow> val))
    \<and> (\<forall>key. map_of dinput key = Some VNone \<longrightarrow> map_of (drop_nones dinput) key = None)"
proof -
  let ?img = "\<lambda>val. case val of
                    VDict d \<Rightarrow> VDict (drop_nones d)
                  | VList xs \<Rightarrow>
                      VList (map (\<lambda>vv. case vv of VDict d \<Rightarrow> VDict (drop_nones d) | _ \<Rightarrow> vv) xs)
                  | VSet xs \<Rightarrow>
                      VSet (map (\<lambda>vv. case vv of VDict d \<Rightarrow> VDict (drop_nones d) | _ \<Rightarrow> vv) xs)
                  | VTuple xs \<Rightarrow>
                      VTuple (map (\<lambda>vv. case vv of VDict d \<Rightarrow> VDict (drop_nones d) | _ \<Rightarrow> vv) xs)
                  | _ \<Rightarrow> val"
  let ?kept = "filter (\<lambda>(key, val). val \<noteq> VNone) dinput"
  have items: "drop_nones dinput = map (\<lambda>(key, val). (key, ?img val)) ?kept"
    by (rule drop_nones_items [OF assms])
  have keys: "map fst (drop_nones dinput) = map fst ?kept"
    unfolding items by (simp add: comp_def case_prod_beta)
  have look: "map_of (drop_nones dinput) key = map_option ?img (map_of ?kept key)" for key
    unfolding items by (simp add: map_of_map)
  have a: "map_of (drop_nones dinput) key = Some (?img val)"
    if "map_of dinput key = Some val \<and> val \<noteq> VNone" for key val
    using that map_of_filter_distinct [OF assms, of key val "\<lambda>v. v \<noteq> VNone"]
    by (simp add: look)
  have b: "map_of (drop_nones dinput) key = None" if "map_of dinput key = Some VNone" for key
    using that map_of_filter_distinct [OF assms, of key VNone "\<lambda>v. v \<noteq> VNone"]
    by (simp add: look)
  from keys a b show ?thesis by blast
qed

theorem drop_nones_spec_witness:
  "map fst (drop_nones
      [(''a'', VNone), (''b'', VAtom (1::int)),
       (''c'', VDict [(''x'', VNone), (''y'', VAtom 2)]),
       (''d'', VList [VNone, VDict [(''z'', VNone), (''w'', VAtom 3)],
                      VList [VDict [(''q'', VNone)]]])])
     = [''b'', ''c'', ''d'']
   \<and> map_of (drop_nones
      [(''a'', VNone), (''b'', VAtom (1::int)),
       (''c'', VDict [(''x'', VNone), (''y'', VAtom 2)]),
       (''d'', VList [VNone, VDict [(''z'', VNone), (''w'', VAtom 3)],
                      VList [VDict [(''q'', VNone)]]])]) ''d''
     = Some (VList [VNone, VDict [(''w'', VAtom 3)], VList [VDict [(''q'', VNone)]]])
   \<and> map_of (drop_nones
      [(''a'', VNone), (''b'', VAtom (1::int)),
       (''c'', VDict [(''x'', VNone), (''y'', VAtom 2)]),
       (''d'', VList [VNone, VDict [(''z'', VNone), (''w'', VAtom 3)],
                      VList [VDict [(''q'', VNone)]]])]) ''a''
     = None"
proof -
  define dinput :: "(string \<times> (string, int) pyobj) list" where
    "dinput = [(''a'', VNone), (''b'', VAtom (1::int)),
       (''c'', VDict [(''x'', VNone), (''y'', VAtom 2)]),
       (''d'', VList [VNone, VDict [(''z'', VNone), (''w'', VAtom 3)],
                      VList [VDict [(''q'', VNone)]]])]"
  have d: "distinct (map fst dinput)" unfolding dinput_def by simp
  have k: "map fst (filter (\<lambda>(key, val). val \<noteq> VNone) dinput) = [''b'', ''c'', ''d'']"
    unfolding dinput_def by simp
  have ld: "map_of dinput ''d'' = Some (VList [VNone, VDict [(''z'', VNone), (''w'', VAtom 3)],
                      VList [VDict [(''q'', VNone)]]])
            \<and> VList [VNone, VDict [(''z'', VNone), (''w'', VAtom 3)],
                      VList [VDict [(''q'', VNone)]]] \<noteq> (VNone :: (string, int) pyobj)"
    unfolding dinput_def by simp
  have la: "map_of dinput ''a'' = Some VNone" unfolding dinput_def by simp
  have inner: "drop_nones [(''z'', VNone), (''w'', VAtom (3::int))] = [(''w'', VAtom 3)]"
    by code_simp
  note t = drop_nones_spec [OF d]
  from t k have 1: "map fst (drop_nones dinput) = [''b'', ''c'', ''d'']" by simp
  from t ld have "map_of (drop_nones dinput) ''d'' =
      Some (case VList [VNone, VDict [(''z'', VNone), (''w'', VAtom 3)],
                      VList [VDict [(''q'', VNone)]]] of
                    VDict d \<Rightarrow> VDict (drop_nones d)
                  | VList xs \<Rightarrow>
                      VList (map (\<lambda>vv. case vv of VDict d \<Rightarrow> VDict (drop_nones d) | _ \<Rightarrow> vv) xs)
                  | VSet xs \<Rightarrow>
                      VSet (map (\<lambda>vv. case vv of VDict d \<Rightarrow> VDict (drop_nones d) | _ \<Rightarrow> vv) xs)
                  | VTuple xs \<Rightarrow>
                      VTuple (map (\<lambda>vv. case vv of VDict d \<Rightarrow> VDict (drop_nones d) | _ \<Rightarrow> vv) xs)
                  | _ \<Rightarrow> VList [VNone, VDict [(''z'', VNone), (''w'', VAtom 3)],
                      VList [VDict [(''q'', VNone)]]])"
    by blast
  then have 2: "map_of (drop_nones dinput) ''d''
     = Some (VList [VNone, VDict [(''w'', VAtom 3)], VList [VDict [(''q'', VNone)]]])"
    by (simp add: inner)
  from t la have 3: "map_of (drop_nones dinput) ''a'' = None" by blast
  from 1 2 3 show ?thesis unfolding dinput_def by blast
qed

section \<open>Properties of md5sum\<close>

lemma md5sum_loop_drop:
  assumes "\<forall>h a b. update (update h a) b = update h (a @ b)"
    and "\<forall>h. update h [] = h" and "0 < n"
  shows "md5sum_loop update n contents pos h = update h (drop pos contents)"
  using assms
proof (induction update n contents pos h rule: md5sum_loop.induct)
  case (1 update n contents pos h)
  let ?r = "drop pos contents"
  let ?chunk = "take n ?r"
  show ?case
  proof (cases "?chunk = []")
    case True
    with \<open>0 < n\<close> have "?r = []" by (cases ?r) auto
    with True 1(3) show ?thesis by (subst md5sum_loop.simps) simp
  next
    case False
    have "md5sum_loop update n contents (pos + length ?chunk) (update h ?chunk)
            = update (update h ?chunk) (drop (pos + length ?chunk) contents)"
      using 1(1) [OF refl False 1(2) 1(3) 1(4)] .
    also have "\<dots> = update h (?chunk @ drop (pos + length ?chunk) contents)"
      using 1(2) by simp
    also have "drop (pos + length ?chunk) contents = drop (length ?chunk) ?r"
      by (simp add: add.commute)
    also have "drop (length ?chunk) ?r = drop n ?r"
      by (cases "n \<le> length ?r") (simp_all add: min_def)
    also have "?chunk @ drop n ?r = ?r" by (rule append_take_drop_id)
    finally have "md5sum_loop update n contents (pos + length ?chunk) (update h ?chunk)
                    = update h ?r" .
    with False show ?thesis by (subst md5sum_loop.simps) (simp add: Let_def)
  qed
qed

lemma fold_update_concat:
  assumes "\<forall>h a b. update (update h a) b = update h (a @ b)" and "\<forall>h. update h [] = h"
  shows "fold (\<lambda>chunk h. update h chunk) chunks h = update h (concat chunks)"
  using assms by (induction chunks arbitrary: h) simp_all

text \<open>
  Claim C6. Let the hash object obey the contract of \<open>hashlib\<close>: updating with \<open>a\<close> and
  then with \<open>b\<close> is updating with \<open>a + b\<close>, and updating with no bytes changes nothing.
  Then for every file that can be opened, \<open>md5sum\<close> returns the hexadecimal digest of the
  reference, the hash of the whole contents in one step. The same holds for every chunk
  size other than 4096, as long as it is positive, and for every way of cutting the
  contents into chunks.
\<close>

theorem md5sum_refines_reference:
  assumes "\<forall>h a b. update (update h a) b = update h (a @ b)"
    and "\<forall>h. update h [] = h"
    and "files fname = Some contents"
  shows "md5sum new update digest files fname = Inr (md5_reference new update digest contents)
    \<and> (\<forall>n. 0 < n \<longrightarrow>
          hexdigest digest (md5sum_loop update n contents 0 new)
            = md5_reference new update digest contents)
    \<and> (\<forall>chunks. concat chunks = contents \<longrightarrow>
          hexdigest digest (fold (\<lambda>chunk h. update h chunk) chunks new)
            = md5_reference new update digest contents)"
proof -
  have l: "md5sum_loop update n contents 0 new = update new contents" if "0 < n" for n
    using md5sum_loop_drop [OF assms(1) assms(2) that, of contents 0 new] by simp
  have a: "md5sum new update digest files fname = Inr (md5_reference new update digest contents)"
    unfolding md5sum_def md5_reference_def Let_def using assms(3) l [of 4096] by simp
  have b: "hexdigest digest (md5sum_loop update n contents 0 new)
            = md5_reference new update digest contents" if "0 < n" for n
    unfolding md5_reference_def using l [OF that] by simp
  have c: "hexdigest digest (fold (\<lambda>chunk h. update h chunk) chunks new)
            = md5_reference new update digest contents" if "concat chunks = contents" for chunks
    unfolding md5_reference_def using fold_update_concat [OF assms(1) assms(2)] that by simp
  from a b c show ?thesis by blast
qed

theorem md5sum_refines_reference_witness:
  "md5sum (0 :: byte) (\<lambda>h data. h + sum_list data) (\<lambda>h. [h])
      [''data.bin'' \<mapsto> replicate 5000 1] ''data.bin''
     = Inr (md5_reference (0 :: byte) (\<lambda>h data. h + sum_list data) (\<lambda>h. [h]) (replicate 5000 1))
   \<and> hexdigest (\<lambda>h. [h])
         (md5sum_loop (\<lambda>h data. h + sum_list data) 7 (replicate 5000 1) 0 (0 :: byte))
     = md5_reference (0 :: byte) (\<lambda>h data. h + sum_list data) (\<lambda>h. [h]) (replicate 5000 1)
   \<and> md5_reference (0 :: byte) (\<lambda>h data. h + sum_list data) (\<lambda>h. [h]) (replicate 5000 1)
     = ''88''"
proof -
  let ?update = "\<lambda>(h :: byte) data. h + sum_list data"
  have 1: "\<forall>h a b. ?update (?update h a) b = ?update h (a @ b)" by (simp add: add.assoc)
  have 2: "\<forall>h. ?update h [] = h" by simp
  have 3: "[''data.bin'' \<mapsto> replicate 5000 (1 :: byte)] ''data.bin'' = Some (replicate 5000 1)"
    by simp
  note t = md5sum_refines_reference [of ?update "[''data.bin'' \<mapsto> replicate 5000 1]"
      "''data.bin''" "replicate 5000 1" 0 "\<lambda>h. [h]", OF 1 2 3]
  have r: "md5_reference (0 :: byte) ?update (\<lambda>h. [h]) (replicate 5000 1) = ''88''"
  proof -
    have "hex_byte (5000 :: byte) = ''88''" by code_simp
    then show ?thesis
      by (simp add: md5_reference_def hexdigest_def sum_list_replicate)
  qed
  from t r show ?thesis by simp
qed

section \<open>Properties of uuid\_from\_string\<close>

lemma py_replace_absent:
  "a \<notin> set s \<Longrightarrow> py_replace (a # old) new s = s"
  by (induction s) auto

lemma strip_chars_absent:
  assumes "set chars \<inter> set s = {}"
  shows "strip_chars chars s = s"
proof -
  have "dropWhile (\<lambda>c. c \<in> set chars) xs = xs" if "set chars \<inter> set xs = {}" for xs :: string
    using that by (cases xs) auto
  then show ?thesis using assms by (simp add: strip_chars_def)
qed

lemma hex_digit_table:
  "\<forall>d\<in>set [0..<16]. hex_value (hex_digit d) = Some (int d)
                      \<and> hex_digit d \<in> set ''0123456789abcdef''"
  by code_simp

lemma hex_value_hex_digit: "d < 16 \<Longrightarrow> hex_value (hex_digit d) = Some (int d)"
  using hex_digit_table by simp

lemma hex_digit_in: "d < 16 \<Longrightarrow> hex_digit d \<in> set ''0123456789abcdef''"
  using hex_digit_table by (simp del: set_simps)

lemma hex_byte_chars: "set (hex_byte b) \<subseteq> set ''0123456789abcdef''"
proof -
  have "unat b div 16 < 16" using unsigned_less [of b, where ?'a = nat] by simp
  moreover have "unat b mod 16 < 16" by simp
  ultimately show ?thesis unfolding hex_byte_def using hex_digit_in by simp
qed

lemma hex_chars: "set (concat (map hex_byte bs)) \<subseteq> set ''0123456789abcdef''"
  using hex_byte_chars by (induction bs) auto

lemma hex_length: "length (concat (map hex_byte bs)) = 2 * length bs"
  by (induction bs) (simp_all add: hex_byte_def)

lemma int_base16_hex:
  "int_base16 acc (concat (map hex_byte bs)) = Some (foldl (\<lambda>a b. 256 * a + uint b) acc bs)"
proof (induction bs arbitrary: acc)
  case Nil
  then show ?case by simp
next
  case (Cons b bs)
  have hi: "unat b div 16 < 16" using unsigned_less [of b, where ?'a = nat] by simp
  have lo: "unat b mod 16 < 16" by simp
  have "16 * (unat b div 16) + unat b mod 16 = unat b" by simp
  then have "int (16 * (unat b div 16) + unat b mod 16) = int (unat b)" by (rule arg_cong)
  then have "16 * int (unat b div 16) + int (unat b mod 16) = uint b"
    by (simp only: of_nat_add of_nat_mult of_nat_numeral of_nat_unat)
  moreover have "16 * (16 * acc + H) + L = 256 * acc + (16 * H + L)" for H L :: int
    by simp
  ultimately have
    "16 * (16 * acc + int (unat b div 16)) + int (unat b mod 16) = 256 * acc + uint b"
    by simp
  have a: "16 * (16 * acc + int (unat b div 16)) + int (unat b mod 16) = 256 * acc + uint b"
    by fact
  have "int_base16 acc (concat (map hex_byte (b # bs)))
          = int_base16 (16 * (16 * acc + int (unat b div 16)) + int (unat b mod 16))
              (concat (map hex_byte bs))"
    using hex_value_hex_digit [OF hi] hex_value_hex_digit [OF lo]
    by (simp add: hex_byte_def)
  also have "\<dots> = Some (foldl (\<lambda>a b. 256 * a + uint b) (256 * acc + uint b) bs)"
    unfolding a by (rule Cons)
  finally show ?case by simp
qed

lemma foldl_bytes_snoc:
  "foldl (\<lambda>a b. 256 * a + uint b) acc (bs @ [b]) = 256 * foldl (\<lambda>a b. 256 * a + uint b) acc bs + uint b"
  by simp

lemma foldl_bytes_inj:
  fixes xs ys :: "byte list"
  assumes "length xs = length ys"
    and "foldl (\<lambda>a b. 256 * a + uint b) 0 xs = foldl (\<lambda>a b. 256 * a + uint b) 0 ys"
  shows "xs = ys"
  using assms
proof (induction xs arbitrary: ys rule: rev_induct)
  case Nil
  then show ?case by simp
next
  case (snoc x xs)
  from snoc.prems(1) obtain y ys' where ys: "ys = ys' @ [y]"
    by (cases ys rule: rev_cases) auto
  let ?v = "foldl (\<lambda>a b. 256 * a + uint b) 0"
  from snoc.prems(2) ys have e: "256 * ?v xs + uint x = 256 * ?v ys' + uint y" by simp
  have bx: "0 \<le> uint x" "uint x < 256" "0 \<le> uint y" "uint y < 256"
    using uint_lt2p [of x] uint_lt2p [of y] by simp_all
  from e have "(256 * ?v xs + uint x) mod 256 = (256 * ?v ys' + uint y) mod 256"
    by (rule arg_cong)
  then have "uint x mod 256 = uint y mod 256"
    by (simp only: mod_mult_self4)
  with bx have "uint x = uint y" by (simp only: mod_pos_pos_trivial)
  then have xy: "x = y" by (simp only: word_uint_eq_iff)
  with e have "?v xs = ?v ys'" by simp
  moreover from snoc.prems(1) ys have "length xs = length ys'" by simp
  ultimately have "xs = ys'" by (rule snoc.IH [rotated])
  with xy ys show ?case by simp
qed




lemma uuid_UUID_hexdigest:
  assumes "length bs = 16"
  shows "uuid_UUID (concat (map hex_byte bs)) = Inr (UUID (foldl (\<lambda>a b. 256 * a + uint b) 0 bs))"
proof -
  let ?hex = "concat (map hex_byte bs)"
  have c: "set ?hex \<subseteq> set ''0123456789abcdef''" by (rule hex_chars)
  have "CHR ''u'' \<notin> set ''0123456789abcdef''" "CHR ''-'' \<notin> set ''0123456789abcdef''"
    "set ''{}'' \<inter> set ''0123456789abcdef'' = {}"
    by simp_all
  with c have u: "CHR ''u'' \<notin> set ?hex" and m: "CHR ''-'' \<notin> set ?hex"
    and b: "set ''{}'' \<inter> set ?hex = {}"
    by blast+
  have r1: "py_replace ''urn:'' [] ?hex = ?hex" using u by (simp add: py_replace_absent)
  have r2: "py_replace ''uuid:'' [] ?hex = ?hex" using u by (simp add: py_replace_absent)
  have r3: "strip_chars ''{}'' ?hex = ?hex" using b by (rule strip_chars_absent)
  have r4: "py_replace ''-'' [] ?hex = ?hex" using m by (simp add: py_replace_absent)
  have l: "length ?hex = 32" using assms by (simp add: hex_length)
  show ?thesis
    unfolding uuid_UUID_def Let_def r1 r2 r3 r4 using l by (simp add: int_base16_hex)
qed

text \<open>
  Claim C7. With a digest of 16 bytes, as MD5 gives, \<open>uuid_from_string\<close> raises nothing:
  it returns the UUID built from the hexadecimal digest of the UTF-8 encoding of the
  string, whose number is the digest read as a big-endian number. Equal strings give
  equal UUIDs, and strings whose digests differ give different UUIDs.
\<close>

theorem uuid_from_string_spec:
  assumes "\<forall>h. length (digest h) = 16"
  shows "uuid_from_string new update digest s
           = uuid_UUID (hexdigest digest (update new (encode_utf8 s)))
    \<and> uuid_from_string new update digest s
           = Inr (UUID (foldl (\<lambda>a b. 256 * a + uint b) 0 (digest (update new (encode_utf8 s)))))
    \<and> (s1 = s2 \<longrightarrow>
          uuid_from_string new update digest s1 = uuid_from_string new update digest s2)
    \<and> (digest (update new (encode_utf8 s1)) \<noteq> digest (update new (encode_utf8 s2)) \<longrightarrow>
          uuid_from_string new update digest s1 \<noteq> uuid_from_string new update digest s2)"
proof -
  have v: "uuid_from_string new update digest t
           = Inr (UUID (foldl (\<lambda>a b. 256 * a + uint b) 0 (digest (update new (encode_utf8 t)))))"
    for t
    unfolding uuid_from_string_def hexdigest_def
    using uuid_UUID_hexdigest assms by blast
  have i: "uuid_from_string new update digest s1 \<noteq> uuid_from_string new update digest s2"
    if "digest (update new (encode_utf8 s1)) \<noteq> digest (update new (encode_utf8 s2))"
  proof
    assume "uuid_from_string new update digest s1 = uuid_from_string new update digest s2"
    then have "foldl (\<lambda>a b. 256 * a + uint b) 0 (digest (update new (encode_utf8 s1)))
             = foldl (\<lambda>a b. 256 * a + uint b) 0 (digest (update new (encode_utf8 s2)))"
      by (simp add: v)
    moreover have "length (digest (update new (encode_utf8 s1)))
                 = length (digest (update new (encode_utf8 s2)))"
      using assms by simp
    ultimately have "digest (update new (encode_utf8 s1)) = digest (update new (encode_utf8 s2))"
      by (rule foldl_bytes_inj [rotated])
    with that show False by simp
  qed
  show ?thesis using v i by (simp add: uuid_from_string_def)
qed


theorem uuid_from_string_spec_witness:
  "uuid_from_string (0 :: byte) (\<lambda>h data. h + sum_list data) (\<lambda>h. replicate 16 h) ''abc''
     = Inr (UUID 50708744874492790633757784636890949158)
   \<and> uuid_from_string (0 :: byte) (\<lambda>h data. h + sum_list data) (\<lambda>h. replicate 16 h) ''abc''
     \<noteq> uuid_from_string (0 :: byte) (\<lambda>h data. h + sum_list data) (\<lambda>h. replicate 16 h) ''abd''"
proof -
  have l: "\<forall>h :: byte. length (replicate 16 h) = 16" by simp
  have a: "(0 :: byte) + sum_list (encode_utf8 ''abc'') = 38" by code_simp
  have b: "(0 :: byte) + sum_list (encode_utf8 ''abd'') = 39" by code_simp
  have v: "foldl (\<lambda>a b. 256 * a + uint b) 0 (replicate 16 (38 :: byte))
             = 50708744874492790633757784636890949158"
    by code_simp
  have d: "replicate 16 (38 :: byte) \<noteq> replicate 16 39" by code_simp
  note t = uuid_from_string_spec
    [of "\<lambda>h. replicate 16 h" 0 "\<lambda>h data. h + sum_list data" "''abc''" "''abc''" "''abd''", OF l]
  from t have "uuid_from_string (0 :: byte) (\<lambda>h data. h + sum_list data) (\<lambda>h. replicate 16 h) ''abc''
     = Inr (UUID (foldl (\<lambda>a b. 256 * a + uint b) 0
                    (replicate 16 ((0 :: byte) + sum_list (encode_utf8 ''abc'')))))"
    by blast
  then have 1: "uuid_from_string (0 :: byte) (\<lambda>h data. h + sum_list data) (\<lambda>h. replicate 16 h) ''abc''
     = Inr (UUID 50708744874492790633757784636890949158)"
    unfolding a v .
  have "replicate 16 ((0 :: byte) + sum_list (encode_utf8 ''abc''))
          \<noteq> replicate 16 ((0 :: byte) + sum_list (encode_utf8 ''abd''))"
    unfolding a b by (rule d)
  with t have 2: "uuid_from_string (0 :: byte) (\<lambda>h data. h + sum_list data) (\<lambda>h. replicate 16 h) ''abc''
     \<noteq> uuid_from_string (0 :: byte) (\<lambda>h data. h + sum_list data) (\<lambda>h. replicate 16 h) ''abd''"
    by blast
  from 1 2 show ?thesis by blast
qed

section \<open>Properties of export\_metadata\_file\<close>

text \<open>
  Claim C8, as amended. A call whose \<open>verbosity\<close> the logger does not know raises
  \<open>ValueError\<close>. Otherwise, with empty metadata the call raises its \<open>RuntimeError\<close>
  (\<open>Export of metadata was requested, but no metadata are present.\<close>). With metadata that
  is not empty, and pruning, serialising and opening the file all succeeding, it returns
  normally and has written the dump of the metadata without its \<open>None\<close> values: as YAML
  to the given file when \<open>savefmt\<close> is \<open>yaml\<close>, and for any other \<open>savefmt\<close> as JSON to the
  file whose name is the given one with every \<open>.yml\<close> replaced by \<open>.json\<close>. Whenever the
  call raises, no file is written. It returns normally only in the two cases above, and
  an exception raised on metadata that is not empty is the one of \<open>setLevel\<close>, of the
  pruning, of the serialiser or of opening the file.
\<close>

theorem export_metadata_file_outcomes:
  "(logging_level verbosity = None \<longrightarrow>
      export_metadata_file safe_dump json_dumps too_deep w yfile metadata savefmt verbosity
        = (w, Inl ValueError))
   \<and> (logging_level verbosity = Some lv \<and> metadata = [] \<longrightarrow>
        export_metadata_file safe_dump json_dumps too_deep w yfile metadata savefmt verbosity
          = (w\<lparr>logger_level := lv\<rparr>,
             Inl (RuntimeError
                    ''Export of metadata was requested, but no metadata are present.'')))
   \<and> (logging_level verbosity = Some lv \<and> metadata \<noteq> [] \<and> \<not> too_deep metadata
        \<and> savefmt = ''yaml'' \<and> safe_dump (drop_nones metadata) = Inr block
        \<and> open_error w yfile = None \<longrightarrow>
        export_metadata_file safe_dump json_dumps too_deep w yfile metadata savefmt verbosity
          = (w\<lparr>logger_level := lv, written := (written w)(yfile \<mapsto> block)\<rparr>, Inr ()))
   \<and> (logging_level verbosity = Some lv \<and> metadata \<noteq> [] \<and> \<not> too_deep metadata
        \<and> savefmt \<noteq> ''yaml'' \<and> json_dumps (drop_nones metadata) = Inr block
        \<and> open_error w (py_replace ''.yml'' ''.json'' yfile) = None \<longrightarrow>
        export_metadata_file safe_dump json_dumps too_deep w yfile metadata savefmt verbosity
          = (w\<lparr>logger_level := lv,
                written := (written w)(py_replace ''.yml'' ''.json'' yfile \<mapsto> block)\<rparr>, Inr ()))
   \<and> (snd (export_metadata_file safe_dump json_dumps too_deep w yfile metadata savefmt verbosity)
          = Inl e \<longrightarrow>
        written (fst (export_metadata_file safe_dump json_dumps too_deep w yfile metadata savefmt
                        verbosity)) = written w)
   \<and> (snd (export_metadata_file safe_dump json_dumps too_deep w yfile metadata savefmt verbosity)
          = Inr () \<longrightarrow>
        logging_level verbosity \<noteq> None \<and> metadata \<noteq> [] \<and> \<not> too_deep metadata
        \<and> (if savefmt = ''yaml''
            then (\<exists>text. safe_dump (drop_nones metadata) = Inr text) \<and> open_error w yfile = None
            else (\<exists>text. json_dumps (drop_nones metadata) = Inr text)
                 \<and> open_error w (py_replace ''.yml'' ''.json'' yfile) = None))
   \<and> (metadata \<noteq> [] \<and>
        snd (export_metadata_file safe_dump json_dumps too_deep w yfile metadata savefmt verbosity)
          = Inl e \<longrightarrow>
        (logging_level verbosity = None \<and> e = ValueError)
        \<or> (too_deep metadata \<and> e = RecursionError)
        \<or> (savefmt = ''yaml'' \<and> safe_dump (drop_nones metadata) = Inl e)
        \<or> (savefmt = ''yaml'' \<and> open_error w yfile = Some e)
        \<or> (savefmt \<noteq> ''yaml'' \<and> json_dumps (drop_nones metadata) = Inl e)
        \<or> (savefmt \<noteq> ''yaml'' \<and> open_error w (py_replace ''.yml'' ''.json'' yfile) = Some e))"
proof (intro conjI)
  show "logging_level verbosity = None \<longrightarrow>
      export_metadata_file safe_dump json_dumps too_deep w yfile metadata savefmt verbosity
        = (w, Inl ValueError)"
    by (simp add: export_metadata_file_def)
next
  show "logging_level verbosity = Some lv \<and> metadata = [] \<longrightarrow>
        export_metadata_file safe_dump json_dumps too_deep w yfile metadata savefmt verbosity
          = (w\<lparr>logger_level := lv\<rparr>,
             Inl (RuntimeError
                    ''Export of metadata was requested, but no metadata are present.''))"
    by (simp add: export_metadata_file_def)
next
  show "logging_level verbosity = Some lv \<and> metadata \<noteq> [] \<and> \<not> too_deep metadata
        \<and> savefmt = ''yaml'' \<and> safe_dump (drop_nones metadata) = Inr block
        \<and> open_error w yfile = None \<longrightarrow>
        export_metadata_file safe_dump json_dumps too_deep w yfile metadata savefmt verbosity
          = (w\<lparr>logger_level := lv, written := (written w)(yfile \<mapsto> block)\<rparr>, Inr ())"
    by (simp add: export_metadata_file_def Let_def)
next
  show "logging_level verbosity = Some lv \<and> metadata \<noteq> [] \<and> \<not> too_deep metadata
        \<and> savefmt \<noteq> ''yaml'' \<and> json_dumps (drop_nones metadata) = Inr block
        \<and> open_error w (py_replace ''.yml'' ''.json'' yfile) = None \<longrightarrow>
        export_metadata_file safe_dump json_dumps too_deep w yfile metadata savefmt verbosity
          = (w\<lparr>logger_level := lv,
                written := (written w)(py_replace ''.yml'' ''.json'' yfile \<mapsto> block)\<rparr>, Inr ())"
    by (simp add: export_metadata_file_def Let_def)
next
  show "snd (export_metadata_file safe_dump json_dumps too_deep w yfile metadata savefmt verbosity)
          = Inl e \<longrightarrow>
        written (fst (export_metadata_file safe_dump json_dumps too_deep w yfile metadata savefmt
                        verbosity)) = written w"
    by (simp add: export_metadata_file_def Let_def split: option.split sum.split)
next
  show "snd (export_metadata_file safe_dump json_dumps too_deep w yfile metadata savefmt verbosity)
          = Inr () \<longrightarrow>
        logging_level verbosity \<noteq> None \<and> metadata \<noteq> [] \<and> \<not> too_deep metadata
        \<and> (if savefmt = ''yaml''
            then (\<exists>text. safe_dump (drop_nones metadata) = Inr text) \<and> open_error w yfile = None
            else (\<exists>text. json_dumps (drop_nones metadata) = Inr text)
                 \<and> open_error w (py_replace ''.yml'' ''.json'' yfile) = None)"
    by (simp add: export_metadata_file_def Let_def split: option.split sum.split)
next
  show "metadata \<noteq> [] \<and>
        snd (export_metadata_file safe_dump json_dumps too_deep w yfile metadata savefmt verbosity)
          = Inl e \<longrightarrow>
        (logging_level verbosity = None \<and> e = ValueError)
        \<or> (too_deep metadata \<and> e = RecursionError)
        \<or> (savefmt = ''yaml'' \<and> safe_dump (drop_nones metadata) = Inl e)
        \<or> (savefmt = ''yaml'' \<and> open_error w yfile = Some e)
        \<or> (savefmt \<noteq> ''yaml'' \<and> json_dumps (drop_nones metadata) = Inl e)
        \<or> (savefmt \<noteq> ''yaml'' \<and> open_error w (py_replace ''.yml'' ''.json'' yfile) = Some e)"
    by (auto simp add: export_metadata_file_def Let_def split: option.splits sum.splits if_splits)
qed

text \<open>
  Metadata that is not empty and a file in a folder that does not exist: the call
  raises \<open>FileNotFoundError\<close> and writes nothing.
\<close>

theorem export_metadata_file_outcomes_counterexample:
  "export_metadata_file keys_text keys_text unlimited
     \<lparr>logger_level = WARNING, written = Map.empty,
      open_error = [''missing/.volantis.gri.yml'' \<mapsto> FileNotFoundError]\<rparr>
     ''missing/.volantis.gri.yml'' [(''class'', VAtom ''surface''), (''unit'', VNone)]
     ''yaml'' ''WARNING''
   = (\<lparr>logger_level = WARNING, written = Map.empty,
       open_error = [''missing/.volantis.gri.yml'' \<mapsto> FileNotFoundError]\<rparr>,
      Inl FileNotFoundError)"
proof -
  have l: "logging_level ''WARNING'' = Some WARNING" by code_simp
  have d: "keys_text (drop_nones [(''class'', VAtom ''surface''), (''unit'', VNone)])
             = Inr ''class''"
    by code_simp
  show ?thesis by (simp add: export_metadata_file_def Let_def l d unlimited_def)
qed

theorem export_metadata_file_outcomes_witness:
  "export_metadata_file keys_text keys_text unlimited
     \<lparr>logger_level = WARNING, written = Map.empty, open_error = Map.empty\<rparr>
     ''maps/.volantis.gri.yml'' [(''class'', VAtom ''surface''), (''unit'', VNone)]
     ''yaml'' ''info''
   = (\<lparr>logger_level = WARNING, written = Map.empty, open_error = Map.empty\<rparr>, Inl ValueError)
   \<and> export_metadata_file keys_text keys_text unlimited
     \<lparr>logger_level = WARNING, written = Map.empty, open_error = Map.empty\<rparr>
     ''maps/.volantis.gri.yml'' ([] :: (string \<times> (string, string) pyobj) list) ''yaml'' ''INFO''
   = (\<lparr>logger_level = INFO, written = Map.empty, open_error = Map.empty\<rparr>,
      Inl (RuntimeError ''Export of metadata was requested, but no metadata are present.''))
   \<and> export_metadata_file keys_text keys_text unlimited
     \<lparr>logger_level = WARNING, written = Map.empty, open_error = Map.empty\<rparr>
     ''maps/.volantis.gri.yml'' [(''class'', VAtom ''surface''), (''unit'', VNone)]
     ''yaml'' ''INFO''
   = (\<lparr>logger_level = INFO, written = [''maps/.volantis.gri.yml'' \<mapsto> ''class''],
       open_error = Map.empty\<rparr>, Inr ())
   \<and> export_metadata_file keys_text keys_text unlimited
     \<lparr>logger_level = WARNING, written = Map.empty, open_error = Map.empty\<rparr>
     ''maps/.volantis.gri.yml'' [(''class'', VAtom ''surface''), (''unit'', VNone)]
     ''json'' ''INFO''
   = (\<lparr>logger_level = INFO, written = [''maps/.volantis.gri.json'' \<mapsto> ''class''],
       open_error = Map.empty\<rparr>, Inr ())
   \<and> written (fst (export_metadata_file keys_text keys_text unlimited
     \<lparr>logger_level = WARNING, written = Map.empty,
      open_error = [''missing/.volantis.gri.yml'' \<mapsto> FileNotFoundError]\<rparr>
     ''missing/.volantis.gri.yml'' [(''class'', VAtom ''surface''), (''unit'', VNone)]
     ''yaml'' ''INFO'')) = Map.empty"
proof -
  let ?m = "[(''class'', VAtom ''surface''), (''unit'', VNone)]
              :: (string \<times> (string, string) pyobj) list"
  let ?w = "\<lparr>logger_level = WARNING, written = Map.empty, open_error = Map.empty\<rparr>"
  let ?v = "\<lparr>logger_level = WARNING, written = Map.empty,
             open_error = [''missing/.volantis.gri.yml'' \<mapsto> FileNotFoundError]\<rparr>"
  have n: "logging_level ''info'' = None" by code_simp
  have l: "logging_level ''INFO'' = Some INFO" by code_simp
  have d: "keys_text (drop_nones ?m) = Inr ''class''" by code_simp
  have j: "py_replace ''.yml'' ''.json'' ''maps/.volantis.gri.yml'' = ''maps/.volantis.gri.json''"
    by code_simp
  have u: "\<not> unlimited ?m" by (simp add: unlimited_def)
  note a = export_metadata_file_outcomes
    [of "''info''" keys_text keys_text unlimited ?w "''maps/.volantis.gri.yml''" ?m "''yaml''"
        INFO "''class''" ValueError]
  note b = export_metadata_file_outcomes
    [of "''INFO''" keys_text keys_text unlimited ?w "''maps/.volantis.gri.yml''" "[]" "''yaml''"
        INFO "''class''" ValueError]
  note c = export_metadata_file_outcomes
    [of "''INFO''" keys_text keys_text unlimited ?w "''maps/.volantis.gri.yml''" ?m "''yaml''"
        INFO "''class''" ValueError]
  note e = export_metadata_file_outcomes
    [of "''INFO''" keys_text keys_text unlimited ?w "''maps/.volantis.gri.yml''" ?m "''json''"
        INFO "''class''" ValueError]
  note f = export_metadata_file_outcomes
    [of "''INFO''" keys_text keys_text unlimited ?v "''missing/.volantis.gri.yml''" ?m "''yaml''"
        INFO "''class''" FileNotFoundError]
  from a n have 1: "export_metadata_file keys_text keys_text unlimited ?w
      ''maps/.volantis.gri.yml'' ?m ''yaml'' ''info'' = (?w, Inl ValueError)"
    by blast
  have "logging_level ''INFO'' = Some INFO \<and> ([] :: (string \<times> (string, string) pyobj) list) = []"
    using l by simp
  with b have "export_metadata_file keys_text keys_text unlimited ?w
      ''maps/.volantis.gri.yml'' [] ''yaml'' ''INFO''
     = (?w\<lparr>logger_level := INFO\<rparr>,
        Inl (RuntimeError ''Export of metadata was requested, but no metadata are present.''))"
    by blast
  then have 2: "export_metadata_file keys_text keys_text unlimited ?w
      ''maps/.volantis.gri.yml'' [] ''yaml'' ''INFO''
     = (\<lparr>logger_level = INFO, written = Map.empty, open_error = Map.empty\<rparr>,
        Inl (RuntimeError ''Export of metadata was requested, but no metadata are present.''))"
    by simp
  have "logging_level ''INFO'' = Some INFO \<and> ?m \<noteq> [] \<and> \<not> unlimited ?m
        \<and> ''yaml'' = ''yaml'' \<and> keys_text (drop_nones ?m) = Inr ''class''
        \<and> open_error ?w ''maps/.volantis.gri.yml'' = None"
    using l d u by simp
  with c have "export_metadata_file keys_text keys_text unlimited ?w
      ''maps/.volantis.gri.yml'' ?m ''yaml'' ''INFO''
     = (?w\<lparr>logger_level := INFO,
            written := (written ?w)(''maps/.volantis.gri.yml'' \<mapsto> ''class'')\<rparr>, Inr ())"
    by blast
  then have 3: "export_metadata_file keys_text keys_text unlimited ?w
      ''maps/.volantis.gri.yml'' ?m ''yaml'' ''INFO''
     = (\<lparr>logger_level = INFO, written = [''maps/.volantis.gri.yml'' \<mapsto> ''class''],
         open_error = Map.empty\<rparr>, Inr ())"
    by simp
  have "logging_level ''INFO'' = Some INFO \<and> ?m \<noteq> [] \<and> \<not> unlimited ?m
        \<and> ''json'' \<noteq> ''yaml'' \<and> keys_text (drop_nones ?m) = Inr ''class''
        \<and> open_error ?w (py_replace ''.yml'' ''.json'' ''maps/.volantis.gri.yml'') = None"
    using l d u by simp
  with e have "export_metadata_file keys_text keys_text unlimited ?w
      ''maps/.volantis.gri.yml'' ?m ''json'' ''INFO''
     = (?w\<lparr>logger_level := INFO,
            written := (written ?w)(py_replace ''.yml'' ''.json'' ''maps/.volantis.gri.yml''
                                      \<mapsto> ''class'')\<rparr>, Inr ())"
    by blast
  then have 4: "export_metadata_file keys_text keys_text unlimited ?w
      ''maps/.volantis.gri.yml'' ?m ''json'' ''INFO''
     = (\<lparr>logger_level = INFO, written = [''maps/.volantis.gri.json'' \<mapsto> ''class''],
         open_error = Map.empty\<rparr>, Inr ())"
    by (simp add: j)
  have "snd (export_metadata_file keys_text keys_text unlimited ?v
      ''missing/.volantis.gri.yml'' ?m ''yaml'' ''INFO'') = Inl FileNotFoundError"
    by (simp add: export_metadata_file_def Let_def l d unlimited_def)
  with f have "written (fst (export_metadata_file keys_text keys_text unlimited ?v
      ''missing/.volantis.gri.yml'' ?m ''yaml'' ''INFO'')) = written ?v"
    by blast
  then have 5: "written (fst (export_metadata_file keys_text keys_text unlimited ?v
      ''missing/.volantis.gri.yml'' ?m ''yaml'' ''INFO'')) = Map.empty"
    by simp
  from 1 2 3 4 5 show ?thesis by blast
qed

end
